theory Spec2Isabelle
  imports Main "HOL-Library.Char_ord" "HOL-Library.List_Lexorder"
    "HOL-Library.Product_Lexorder" "HOL-Library.Option_ord"
begin

section \<open>Key normalizer (server/utils.js)\<close>

text \<open>
  JavaScript strings are modelled as HOL strings (lists of 8-bit characters). Validator
  keys are hexadecimal ASCII text, so \<open>String.prototype.trim\<close> and
  \<open>String.prototype.toLowerCase\<close> are modelled on the ASCII range: the white space
  removed by \<open>trim\<close> is TAB, LF, VT, FF, CR and SPACE, and \<open>toLowerCase\<close> maps
  \<open>A\<close>..\<open>Z\<close> to \<open>a\<close>..\<open>z\<close> and leaves every other character alone.
\<close>

definition isWhiteSpace :: "char \<Rightarrow> bool" where
  "isWhiteSpace c = ((of_char c :: nat) \<in> {9, 10, 11, 12, 13, 32})"

definition trim :: "string \<Rightarrow> string" where
  "trim s = rev (dropWhile isWhiteSpace (rev (dropWhile isWhiteSpace s)))"

definition toLowerChar :: "char \<Rightarrow> char" where
  "toLowerChar c =
     (if 65 \<le> (of_char c :: nat) \<and> (of_char c :: nat) \<le> 90
      then char_of ((of_char c :: nat) + 32) else c)"

definition toLowerCase :: "string \<Rightarrow> string" where
  "toLowerCase s = map toLowerChar s"

definition startsWith :: "string \<Rightarrow> string \<Rightarrow> bool" where
  "startsWith s p = (take (length p) s = p)"

text \<open>
  \<^verbatim>\<open>
  function normalizePubkey(pubkey) {
    if (!pubkey) return pubkey;
    let normalized = pubkey.trim();
    if (!normalized.startsWith('0x')) normalized = '0x' + normalized;
    return normalized.toLowerCase();
  }
  \<close>
  The only falsy string is the empty one.
\<close>

definition normalizePubkey :: "string \<Rightarrow> string" where
  "normalizePubkey pubkey =
     (if pubkey = [] then pubkey
      else let normalized = trim pubkey;
               normalized = (if \<not> startsWith normalized ''0x'' then ''0x'' @ normalized
                             else normalized)
           in toLowerCase normalized)"

section \<open>Arrays and exceptions\<close>

text \<open>\<open>Array.prototype.slice(start, end)\<close> for \<open>0 \<le> start \<le> end\<close>.\<close>

definition slice :: "'a list \<Rightarrow> nat \<Rightarrow> nat \<Rightarrow> 'a list" where
  "slice xs start end = take (end - start) (drop start xs)"

text \<open>Exceptions are values; \<open>message\<close> is \<open>error.message\<close>.\<close>

datatype js_error = ReferenceError string | SystemError string | Error string

fun message :: "js_error \<Rightarrow> string" where
  "message (ReferenceError m) = m"
| "message (SystemError m) = m"
| "message (Error m) = m"

section \<open>Status oracle client (server/beaconApi.js)\<close>

text \<open>
  \<^verbatim>\<open>
  function mapBeaconStatus(beaconStatus) {
    if (beaconStatus === 'active_ongoing' || beaconStatus === 'active_exiting'
        || beaconStatus === 'active_slashed') {
      return 'active';
    } else if (beaconStatus === 'pending_queued' || beaconStatus === 'exited_unslashed'
        || beaconStatus === 'exited_slashed') {
      return 'exit_queue';
    }
    return 'inactive';
  }
  \<close>
\<close>

definition mapBeaconStatus :: "string \<Rightarrow> string" where
  "mapBeaconStatus beaconStatus =
     (if beaconStatus = ''active_ongoing'' \<or> beaconStatus = ''active_exiting''
         \<or> beaconStatus = ''active_slashed'' then ''active''
      else if beaconStatus = ''pending_queued'' \<or> beaconStatus = ''exited_unslashed''
         \<or> beaconStatus = ''exited_slashed'' then ''exit_queue''
      else ''inactive'')"

text \<open>
  The \<open>timeout\<close> options (milliseconds) of the two axios calls: \<open>axios.get\<close> in
  \<open>getValidatorStatus\<close> and \<open>axios.post\<close> in \<open>getValidatorStatusesBatch\<close>.
\<close>

definition single_timeout :: nat where
  "single_timeout = 10000"

definition bulk_timeout :: nat where
  "bulk_timeout = 60000"

text \<open>
  The beacon API is a parameter: \<open>post_validators\<close> is what the \<open>try\<close> block of
  \<open>getValidatorStatusesBatch\<close> gets from \<open>axios.post\<close> for a list of ids (an
  exception, also one raised while decoding a malformed answer; an answer without
  \<open>data.data\<close>; or the decoded list), and \<open>get_validator\<close> is what \<open>axios.get\<close>
  gives \<open>getValidatorStatus\<close> for one id (the decoded validator, an answer without
  \<open>data.data\<close>, or an error with its \<open>error.response.status\<close>, if any, and its
  message).
\<close>

record beacon_validator =
  bv_status :: string
  bv_pubkey :: string
  effective_balance :: string
  slashed :: bool

datatype get_outcome = GetData beacon_validator | GetEmpty | GetError "nat option" string

record beacon_api =
  post_validators :: "string list \<Rightarrow> js_error + beacon_validator list option"
  get_validator :: "string \<Rightarrow> get_outcome"

text \<open>
  What the client does besides returning: the requests it issues, the lines it writes
  with \<open>console.warn\<close> and \<open>console.error\<close>, and its pacing delays (milliseconds).
  The per-key requests of one chunk run concurrently under \<open>Promise.all\<close>; the trace
  lists them, each with its log lines, in the order of the keys.
\<close>

datatype event = BulkRequest "string list" | Request string | Log string | Sleep nat

text \<open>
  \<^verbatim>\<open>
  async function getValidatorStatus(pubkey) {
    try {
      const formattedPubkey = normalizePubkey(pubkey);
      const response = await axios.get(`${BEACON_API_URL}/.../validators/${formattedPubkey}`,
                                       { timeout: 10000, ... });
      if (response.data && response.data.data) { ... return { status, pubkey, ... }; }
      return null;
    } catch (error) {
      if (error.response && error.response.status === 404) return null;
      console.error(`Error fetching validator status for ${pubkey}:`, error.message);
      throw error;
    }
  }
  \<close>
\<close>

definition getValidatorStatus ::
  "beacon_api \<Rightarrow> string \<Rightarrow> (js_error + beacon_validator option) \<times> event list" where
  "getValidatorStatus api pk =
     (let formattedPubkey = normalizePubkey pk
      in case get_validator api formattedPubkey of
           GetData validator \<Rightarrow> (Inr (Some validator), [Request formattedPubkey])
         | GetEmpty \<Rightarrow> (Inr None, [Request formattedPubkey])
         | GetError code msg \<Rightarrow>
             if code = Some 404 then (Inr None, [Request formattedPubkey])
             else (Inl (Error msg),
                   [Request formattedPubkey,
                    Log (''Error fetching validator status for '' @ pk @ '': '' @ msg)]))"

text \<open>\<open>Promise.all\<close>: rejected as soon as one of the promises is.\<close>

fun promise_all :: "(js_error + 'a) list \<Rightarrow> js_error + 'a list" where
  "promise_all [] = Inr []"
| "promise_all (p # ps) =
     (case p of
        Inl e \<Rightarrow> Inl e
      | Inr v \<Rightarrow> (case promise_all ps of Inl e \<Rightarrow> Inl e | Inr vs \<Rightarrow> Inr (v # vs)))"

text \<open>
  One promise of the fallback path:
  \<^verbatim>\<open>
  async (pubkey) => {
    try { return await getValidatorStatus(pubkey); }
    catch (err) {
      console.error(`Error fetching status for ${pubkey}:`, err.message);
      return null;
    }
  }
  \<close>
\<close>

definition chunk_promise ::
  "beacon_api \<Rightarrow> string \<Rightarrow> (js_error + beacon_validator option) \<times> event list" where
  "chunk_promise api pk =
     (case getValidatorStatus api pk of
        (Inr r, evs) \<Rightarrow> (Inr r, evs)
      | (Inl err, evs) \<Rightarrow>
          (Inr None, evs @ [Log (''Error fetching status for '' @ pk @ '': '' @ message err)]))"

text \<open>
  \<^verbatim>\<open>
  const results = [];
  const CHUNK_SIZE = 50;
  for (let i = 0; i < pubkeys.length; i += CHUNK_SIZE) {
    const chunk = pubkeys.slice(i, i + CHUNK_SIZE);
    const chunkPromises = chunk.map(async (pubkey) => { ... });
    const chunkResults = await Promise.all(chunkPromises);
    results.push(...chunkResults.filter(r => r !== null));
    if (i + CHUNK_SIZE < pubkeys.length) {
      await new Promise(resolve => setTimeout(resolve, 200));
    }
  }
  return results;
  \<close>
  The state of the loop is \<open>results\<close> and the trace so far.
\<close>

function fallback_loop ::
  "beacon_api \<Rightarrow> string list \<Rightarrow> nat \<Rightarrow> beacon_validator list \<times> event list
   \<Rightarrow> (js_error + beacon_validator list) \<times> event list" where
  "fallback_loop api pubkeys i st =
     (if i < length pubkeys then
        let chunk = slice pubkeys i (i + 50);
            chunkPromises = map (chunk_promise api) chunk;
            evs = snd st @ concat (map snd chunkPromises)
        in (case promise_all (map fst chunkPromises) of
              Inl e \<Rightarrow> (Inl e, evs)
            | Inr chunkResults \<Rightarrow>
                fallback_loop api pubkeys (i + 50)
                  (fst st @ map the (filter (\<lambda>r. r \<noteq> None) chunkResults),
                   evs @ (if i + 50 < length pubkeys then [Sleep 200] else [])))
      else (Inr (fst st), snd st))"
  by pat_completeness auto
termination
  by (relation "measure (\<lambda>(api, pubkeys, i, st). length pubkeys - i)") auto

declare fallback_loop.simps [simp del]

text \<open>
  \<^verbatim>\<open>
  async function getValidatorStatusesBatch(pubkeys) {
    try {
      const formattedPubkeys = pubkeys.map(pk => normalizePubkey(pk));
      const response = await axios.post(..., { ids: formattedPubkeys }, { timeout: 60000, ... });
      if (response.data && response.data.data) {
        return response.data.data.map(validator => ({ status: ..., pubkey: ..., ... }));
      }
      return [];
    } catch (error) {
      console.warn('Batch request failed, falling back to individual requests:', error.message);
      ... the loop above ...
    }
  }
  \<close>
\<close>

definition getValidatorStatusesBatch ::
  "beacon_api \<Rightarrow> string list \<Rightarrow> (js_error + beacon_validator list) \<times> event list" where
  "getValidatorStatusesBatch api pubkeys =
     (let formattedPubkeys = map normalizePubkey pubkeys
      in case post_validators api formattedPubkeys of
           Inr (Some data) \<Rightarrow> (Inr data, [BulkRequest formattedPubkeys])
         | Inr None \<Rightarrow> (Inr [], [BulkRequest formattedPubkeys])
         | Inl error \<Rightarrow>
             fallback_loop api pubkeys 0
               ([], [BulkRequest formattedPubkeys,
                     Log (''Batch request failed, falling back to individual requests: ''
                          @ message error)]))"

text \<open>
  For comparison with the loop: a list cut into consecutive chunks of n elements (the
  last one may be shorter), the results of the keys whose lookup answers with data, and
  the trace of per-key lookups done chunk by chunk with a pause of 200 ms between two
  chunks.
\<close>

fun chunks_of :: "nat \<Rightarrow> 'a list \<Rightarrow> 'a list list" where
  "chunks_of n xs = (if n = 0 \<or> xs = [] then [] else take n xs # chunks_of n (drop n xs))"

declare chunks_of.simps [simp del]

definition found :: "beacon_api \<Rightarrow> string list \<Rightarrow> beacon_validator list" where
  "found api pks =
     concat (map (\<lambda>pk. case get_validator api (normalizePubkey pk) of
                          GetData v \<Rightarrow> [v] | GetEmpty \<Rightarrow> [] | GetError code msg \<Rightarrow> []) pks)"

fun chunked_trace :: "beacon_api \<Rightarrow> string list list \<Rightarrow> event list" where
  "chunked_trace api [] = []"
| "chunked_trace api [c] = concat (map (\<lambda>pk. snd (chunk_promise api pk)) c)"
| "chunked_trace api (c # cs) =
     concat (map (\<lambda>pk. snd (chunk_promise api pk)) c) @ Sleep 200 # chunked_trace api cs"

text \<open>What the promise of one key resolves to in the fallback path.\<close>

definition lookup_result :: "beacon_api \<Rightarrow> string \<Rightarrow> beacon_validator option" where
  "lookup_result api pk =
     (case get_validator api (normalizePubkey pk) of
        GetData v \<Rightarrow> Some v | GetEmpty \<Rightarrow> None | GetError code msg \<Rightarrow> None)"

text \<open>A beacon API whose bulk endpoint times out and which knows one key.\<close>

definition example_api :: beacon_api where
  "example_api =
     \<lparr>post_validators = (\<lambda>ids. Inl (Error ''timeout'')),
      get_validator = (\<lambda>k. if k = ''0xaa''
         then GetData \<lparr>bv_status = ''active_ongoing'', bv_pubkey = ''0xaa'',
                        effective_balance = ''32000000000'', slashed = False\<rparr>
         else GetError None ''timeout'')\<rparr>"

section \<open>Persisted state (server/db.js)\<close>

text \<open>
  The three tables created by \<open>initDatabase\<close>. A table is the list of its rows in
  insertion order; the surrogate \<open>id\<close> and \<open>created_at\<close> columns of \<open>validators\<close>
  are left out (a row replaced by \<open>INSERT OR REPLACE\<close> is deleted and inserted anew,
  so it moves to the end of the list). Text columns are strings, a nullable text column
  is a \<open>string option\<close>, and \<open>CURRENT_TIMESTAMP\<close> is a natural number handed to each
  operation.
\<close>

record validator =
  pubkey :: string
  provider :: string
  status :: string
  json_filename :: "string option"
  bucket_no :: "string option"
  updated_at :: nat

record exit_batch =
  b_id :: nat
  filename :: string
  uploaded_at :: nat
  total_validators :: nat

record exit_validator =
  e_id :: nat
  batch_id :: nat
  e_pubkey :: string
  e_status :: string
  e_updated_at :: nat

record database =
  t_validators :: "validator list"
  t_exit_batches :: "exit_batch list"
  t_exit_validators :: "exit_validator list"

section \<open>Ingestion (server/routes.js, scripts/loadCSV.js)\<close>

text \<open>A row produced by \<open>parseCSV\<close>: \<open>{pubkey, provider, json_filename, bucket_no}\<close>.\<close>

record csv_row =
  r_pubkey :: string
  r_provider :: string
  r_json_filename :: "string option"
  r_bucket_no :: "string option"

text \<open>
  \<open>INSERT OR REPLACE INTO validators\<close>: \<open>pubkey\<close> is \<open>UNIQUE\<close>, so a row with the
  same pubkey is deleted before the new row is inserted.
\<close>

definition insert_or_replace :: "validator \<Rightarrow> validator list \<Rightarrow> validator list" where
  "insert_or_replace row tbl = filter (\<lambda>v. pubkey v \<noteq> pubkey row) tbl @ [row]"

text \<open>
  The statement of \<open>POST /api/upload-csv\<close>:
  \<^verbatim>\<open>
  INSERT OR REPLACE INTO validators (pubkey, provider, status, json_filename, updated_at)
  VALUES (?, ?, 'pending', ?, CURRENT_TIMESTAMP)
  \<close>
  run with \<open>normalizePubkey(validator.pubkey)\<close>, \<open>validator.provider\<close>,
  \<open>validator.json_filename\<close>. The column \<open>bucket_no\<close> is not listed and takes its
  default, \<open>NULL\<close>. The callback of \<open>stmt.run\<close> counts the row in \<open>inserted\<close>.
\<close>

definition upload_row :: "nat \<Rightarrow> csv_row \<Rightarrow> validator list \<times> nat \<Rightarrow> validator list \<times> nat" where
  "upload_row now validator st =
     (let normalizedPubkey = normalizePubkey (r_pubkey validator)
      in (insert_or_replace
            \<lparr>pubkey = normalizedPubkey, provider = r_provider validator,
             status = ''pending'', json_filename = r_json_filename validator,
             bucket_no = None, updated_at = now\<rparr> (fst st),
          snd st + 1))"

text \<open>
  \<^verbatim>\<open>
  const batchSize = 100;
  for (let i = 0; i < validators.length; i += batchSize) {
    const batch = validators.slice(i, i + batchSize);
    ... batch.forEach(validator => { ... stmt.run(...) }); stmt.finalize(...)
  }
  \<close>
\<close>

function upload_csv_loop ::
  "nat \<Rightarrow> csv_row list \<Rightarrow> nat \<Rightarrow> validator list \<times> nat \<Rightarrow> validator list \<times> nat" where
  "upload_csv_loop now validators i st =
     (if i < length validators
      then upload_csv_loop now validators (i + 100)
             (fold (upload_row now) (slice validators i (i + 100)) st)
      else st)"
  by pat_completeness auto
termination
  by (relation "measure (\<lambda>(now, validators, i, st). length validators - i)") auto

declare upload_csv_loop.simps [simp del]

text \<open>
  \<open>fs.unlinkSync\<close> throws \<open>ENOENT\<close> when the path does not exist; the file system
  is the set of existing paths.
\<close>

definition unlinkSync :: "string \<Rightarrow> string set \<Rightarrow> js_error + string set" where
  "unlinkSync path files =
     (if path \<in> files then Inr (files - {path})
      else Inl (SystemError (''ENOENT: no such file or directory, unlink '' @ path)))"

text \<open>
  What a route handler does with its request: it sends a response (status code and the
  \<open>error\<close> text of the body), or its promise is rejected and it sends nothing.
\<close>

datatype outcome = Responded nat string | Unhandled js_error

record server =
  db :: database
  files :: "string set"

text \<open>
  The \<open>try\<close> block of \<open>POST /api/upload-csv\<close> once \<open>req.file\<close> is present. The
  argument \<open>parsed\<close> is the outcome of \<open>await parseCSV(filePath)\<close>. After the loop the
  uploaded file is removed, and the object literal passed to \<open>res.json\<close> reads the
  variable \<open>updated\<close>, which is declared nowhere in the handler: evaluating it throws a
  \<open>ReferenceError\<close>, so the success response is never sent.
  \<^verbatim>\<open>
  const validators = await parseCSV(filePath);
  if (validators.length === 0) {
    fs.unlinkSync(filePath);
    return res.status(400).json({ error: 'No valid data found in CSV file' });
  }
  ... loop ...
  fs.unlinkSync(filePath);
  res.json({ message: 'CSV file processed successfully',
             total: validators.length, inserted, updated });
  \<close>
\<close>

definition upload_csv_try ::
  "nat \<Rightarrow> string \<Rightarrow> js_error + csv_row list \<Rightarrow> server \<Rightarrow> (js_error + outcome) \<times> server" where
  "upload_csv_try now filePath parsed s =
     (case parsed of
        Inl e \<Rightarrow> (Inl e, s)
      | Inr validators \<Rightarrow>
          if length validators = 0 then
            (case unlinkSync filePath (files s) of
               Inl e \<Rightarrow> (Inl e, s)
             | Inr fs \<Rightarrow>
                 (Inr (Responded 400 ''No valid data found in CSV file''), s\<lparr>files := fs\<rparr>))
          else
            let st = upload_csv_loop now validators 0 (t_validators (db s), 0);
                s1 = s\<lparr>db := (db s)\<lparr>t_validators := fst st\<rparr>\<rparr>
            in (case unlinkSync filePath (files s1) of
                  Inl e \<Rightarrow> (Inl e, s1)
                | Inr fs \<Rightarrow> (Inl (ReferenceError ''updated is not defined''), s1\<lparr>files := fs\<rparr>)))"

text \<open>
  The handler with its \<open>catch\<close> block; \<open>req_file\<close> is \<open>req.file\<close> (the path multer
  stored the upload under, with what \<open>parseCSV\<close> makes of it).
  \<^verbatim>\<open>
  try {
    if (!req.file) { return res.status(400).json({ error: 'No CSV file uploaded' }); }
    const filePath = req.file.path;
    ...
  } catch (error) {
    console.error('Error processing CSV:', error);
    if (req.file) { fs.unlinkSync(req.file.path); }
    res.status(500).json({ error: error.message });
  }
  \<close>
  An exception thrown inside the \<open>catch\<close> block leaves the \<open>async\<close> handler: its
  promise is rejected and no response is sent by the handler.
\<close>

definition upload_csv ::
  "nat \<Rightarrow> (string \<times> (js_error + csv_row list)) option \<Rightarrow> server \<Rightarrow> outcome \<times> server" where
  "upload_csv now req_file s =
     (case req_file of
        None \<Rightarrow> (Responded 400 ''No CSV file uploaded'', s)
      | Some (filePath, parsed) \<Rightarrow>
          (case upload_csv_try now filePath parsed s of
             (Inr out, s') \<Rightarrow> (out, s')
           | (Inl error, s') \<Rightarrow>
               (case unlinkSync filePath (files s') of
                  Inl e \<Rightarrow> (Unhandled e, s')
                | Inr fs \<Rightarrow> (Responded 500 (message error), s'\<lparr>files := fs\<rparr>))))"

text \<open>
  \<open>loadCSV\<close> of scripts/loadCSV.js (and \<open>loadAllCSV\<close>, with the same statement):
  \<^verbatim>\<open>
  INSERT OR REPLACE INTO validators
    (pubkey, provider, status, json_filename, bucket_no, updated_at)
  VALUES (?, ?, 'pending', ?, ?, CURRENT_TIMESTAMP)
  \<close>
  run with \<open>validator.pubkey\<close>, \<open>validator.provider\<close>, \<open>validator.json_filename\<close>,
  \<open>validator.bucket_no || null\<close>.
\<close>

definition or_null :: "string option \<Rightarrow> string option" where
  "or_null v = (case v of None \<Rightarrow> None | Some s \<Rightarrow> if s = [] then None else Some s)"

definition load_row :: "nat \<Rightarrow> csv_row \<Rightarrow> validator list \<times> nat \<Rightarrow> validator list \<times> nat" where
  "load_row now validator st =
     (insert_or_replace
        \<lparr>pubkey = r_pubkey validator, provider = r_provider validator,
         status = ''pending'', json_filename = r_json_filename validator,
         bucket_no = or_null (r_bucket_no validator), updated_at = now\<rparr> (fst st),
      snd st + 1)"

function loadCSV_loop ::
  "nat \<Rightarrow> csv_row list \<Rightarrow> nat \<Rightarrow> validator list \<times> nat \<Rightarrow> validator list \<times> nat" where
  "loadCSV_loop now validators i st =
     (if i < length validators
      then loadCSV_loop now validators (i + 100)
             (fold (load_row now) (slice validators i (i + 100)) st)
      else st)"
  by pat_completeness auto
termination
  by (relation "measure (\<lambda>(now, validators, i, st). length validators - i)") auto

declare loadCSV_loop.simps [simp del]

text \<open>
  \<open>loadCSV\<close> returns the exit code of the process and the table: with an empty parse
  result it exits with code 1 before touching the table.
\<close>

definition loadCSV :: "nat \<Rightarrow> csv_row list \<Rightarrow> validator list \<Rightarrow> nat \<times> validator list" where
  "loadCSV now validators tbl =
     (if length validators = 0 then (1, tbl)
      else (0, fst (loadCSV_loop now validators 0 (tbl, 0))))"

section \<open>Sync orchestrator (server/routes.js)\<close>

text \<open>
  The connection: the current contents of the tables and, while a transaction is open,
  the contents to go back to. \<open>BEGIN TRANSACTION\<close> inside an open transaction is an
  error, and so is \<open>ROLLBACK\<close> without one. A \<open>COMMIT\<close> that fails leaves the
  transaction open: the handlers issue no \<open>ROLLBACK\<close> on that path.
\<close>

record conn =
  current :: database
  saved :: "database option"

definition begin_transaction :: "conn \<Rightarrow> conn option" where
  "begin_transaction c =
     (case saved c of None \<Rightarrow> Some (c\<lparr>saved := Some (current c)\<rparr>) | Some d \<Rightarrow> None)"

definition rollback :: "conn \<Rightarrow> conn option" where
  "rollback c = (case saved c of None \<Rightarrow> None | Some d \<Rightarrow> Some \<lparr>current = d, saved = None\<rparr>)"

definition commit :: "conn \<Rightarrow> conn" where
  "commit c = c\<lparr>saved := None\<rparr>"

text \<open>
  A call of the sqlite3 binding that fails hands the error to its callback. With no
  callback the error is emitted as an \<open>error\<close> event; the handlers register no listener,
  so the event is an uncaught exception and the process ends. What the database file then
  holds is \<open>crash\<close>: an open transaction was never committed and is undone.
\<close>

definition crash :: "conn \<Rightarrow> database" where
  "crash c = (case saved c of None \<Rightarrow> current c | Some d \<Rightarrow> d)"

text \<open>
  The storage faults of one chunk: which of its \<open>stmt.run\<close> calls fail (by position
  in the chunk), whether \<open>stmt.finalize\<close> fails and whether \<open>COMMIT\<close> fails. A
  statement that fails changes no row and leaves the transaction as it is.
\<close>

record faults =
  run_fault :: "nat \<Rightarrow> bool"
  finalize_fault :: bool
  commit_fault :: bool

text \<open>
  \<^verbatim>\<open>
  const statusMap = {};
  statuses.forEach(status => {
    const mappedStatus = mapBeaconStatus(status.status);
    const normalizedApiPubkey = normalizePubkey(status.pubkey);
    statusMap[normalizedApiPubkey] = mappedStatus;
  });
  \<close>
  The object is a map from keys to statuses. It is only read at results of
  \<open>normalizePubkey\<close>, which are empty or begin with \<open>0x\<close>, so no property inherited
  from \<open>Object.prototype\<close> is ever read.
\<close>

definition build_statusMap :: "beacon_validator list \<Rightarrow> (string \<rightharpoonup> string)" where
  "build_statusMap statuses =
     fold (\<lambda>st statusMap.
             statusMap(normalizePubkey (bv_pubkey st) \<mapsto> mapBeaconStatus (bv_status st)))
       statuses Map.empty"

text \<open>\<open>statusMap[key] || dflt\<close>: the default replaces \<open>undefined\<close> and the empty string.\<close>

definition or_default :: "string option \<Rightarrow> string \<Rightarrow> string" where
  "or_default v dflt = (case v of None \<Rightarrow> dflt | Some x \<Rightarrow> if x = [] then dflt else x)"

text \<open>
  \<^verbatim>\<open>UPDATE exit_validators SET status = ?, updated_at = CURRENT_TIMESTAMP WHERE pubkey = ?\<close>
  and
  \<^verbatim>\<open>UPDATE validators SET status = ?, updated_at = CURRENT_TIMESTAMP WHERE pubkey = ?\<close>
\<close>

definition update_exit_validators :: "nat \<Rightarrow> string \<Rightarrow> string \<Rightarrow> database \<Rightarrow> database" where
  "update_exit_validators now st pk d =
     d\<lparr>t_exit_validators :=
         map (\<lambda>e. if e_pubkey e = pk then e\<lparr>e_status := st, e_updated_at := now\<rparr> else e)
           (t_exit_validators d)\<rparr>"

definition update_validators :: "nat \<Rightarrow> string \<Rightarrow> string \<Rightarrow> database \<Rightarrow> database" where
  "update_validators now st pk d =
     d\<lparr>t_validators :=
         map (\<lambda>v. if pubkey v = pk then v\<lparr>status := st, updated_at := now\<rparr> else v)
           (t_validators d)\<rparr>"

text \<open>
  The \<open>forEach\<close> over the keys of the chunk, common to both handlers up to the statement
  \<open>upd\<close>, the default status \<open>dflt\<close> and whether \<open>stmt.run\<close> is given a callback
  (\<open>cb\<close>). In \<open>POST /api/sync-exit-statuses\<close> it is not:
  \<^verbatim>\<open>
  normalizedBatch.forEach(normalizedPubkey => {
    const status = statusMap[normalizedPubkey] || 'unknown';
    stmt.run(status, normalizedPubkey);
  });
  \<close>
  and in \<open>POST /api/sync-statuses\<close> it is:
  \<^verbatim>\<open>
  pubkeys.forEach(pubkey => {
    const mappedStatus = statusMap[pubkey] || 'inactive';
    stmt.run([mappedStatus, pubkey], (err) => {
      if (err) { console.error(...); batchErrors++; } else { batchSynced++; }
    });
  });
  \<close>
  The k-th \<open>stmt.run\<close> of the chunk fails when \<open>fault k\<close>. With a callback the failure
  is logged and the next statement runs; without one the process ends there (\<open>None\<close>).
\<close>

fun run_updates ::
  "(string \<Rightarrow> string \<Rightarrow> database \<Rightarrow> database) \<Rightarrow> string \<Rightarrow> bool \<Rightarrow> (nat \<Rightarrow> bool)
   \<Rightarrow> (string \<rightharpoonup> string) \<Rightarrow> nat \<Rightarrow> string list \<Rightarrow> database \<Rightarrow> database option" where
  "run_updates upd dflt cb fault statusMap k [] d = Some d"
| "run_updates upd dflt cb fault statusMap k (pk # pks) d =
     (if fault k
      then (if cb then run_updates upd dflt cb fault statusMap (Suc k) pks d else None)
      else run_updates upd dflt cb fault statusMap (Suc k) pks
             (upd (or_default (statusMap pk) dflt) pk d))"

text \<open>
  The transaction of one chunk:
  \<^verbatim>\<open>
  await new Promise((resolve, reject) => {
    db.serialize(() => {
      db.run('BEGIN TRANSACTION');
      const stmt = db.prepare(`UPDATE ...`);
      keys.forEach(...);
      stmt.finalize((err) => {
        if (err) { db.run('ROLLBACK'); reject(err); }
        else { db.run('COMMIT', (err) => { if (err) { reject(err); } else { resolve(); } }); }
      });
    });
  });
  \<close>
  \<open>BEGIN TRANSACTION\<close> and \<open>ROLLBACK\<close> are run without callback, \<open>COMMIT\<close> with one.
  The promise is resolved, or rejected, or the process has ended (\<open>Died\<close>, with what the
  database file holds).
\<close>

datatype txn_result = Resolved conn | Rejected js_error conn | Died database

definition chunk_transaction ::
  "(string \<Rightarrow> string \<Rightarrow> database \<Rightarrow> database) \<Rightarrow> string \<Rightarrow> bool \<Rightarrow> faults
   \<Rightarrow> (string \<rightharpoonup> string) \<Rightarrow> string list \<Rightarrow> conn \<Rightarrow> txn_result" where
  "chunk_transaction upd dflt cb f statusMap keys c =
     (case begin_transaction c of
        None \<Rightarrow> Died (crash c)
      | Some c1 \<Rightarrow>
          (case run_updates upd dflt cb (run_fault f) statusMap 0 keys (current c1) of
             None \<Rightarrow> Died (crash c1)
           | Some d \<Rightarrow>
               if finalize_fault f
               then (case rollback (c1\<lparr>current := d\<rparr>) of
                       None \<Rightarrow> Died (crash (c1\<lparr>current := d\<rparr>))
                     | Some c3 \<Rightarrow> Rejected (Error ''finalize failed'') c3)
               else if commit_fault f then Rejected (Error ''commit failed'') (c1\<lparr>current := d\<rparr>)
               else Resolved (commit (c1\<lparr>current := d\<rparr>))))"

text \<open>
  How a run stands after a chunk, or at its end: the process is alive with its
  connection, or it has ended and the database file holds what \<open>Crashed\<close> carries.
\<close>

datatype run_result = Running conn | Crashed database

fun db_after :: "run_result \<Rightarrow> database" where
  "db_after (Running c) = current c"
| "db_after (Crashed d) = d"

text \<open>
  The body of the loop of \<open>POST /api/sync-exit-statuses\<close>, with its \<open>try\<close> and
  \<open>catch\<close>: a rejection of the status fetch or of the transaction is logged and the
  loop goes on. Console output and the pacing delay between two chunks are not part of
  the state.
  \<^verbatim>\<open>
  try {
    const normalizedBatch = batch.map(pk => normalizePubkey(pk));
    const statuses = await getValidatorStatusesBatch(normalizedBatch);
    ... statusMap ... transaction ...
    if (i + BATCH_SIZE < validators.length) { await new Promise(... setTimeout(resolve, 1000)); }
  } catch (err) {
    console.error(`Error processing batch ${i}-${i + BATCH_SIZE}:`, err);
  }
  \<close>
\<close>

definition sync_exit_chunk ::
  "nat \<Rightarrow> faults \<Rightarrow> beacon_api \<Rightarrow> string list \<Rightarrow> conn \<Rightarrow> run_result" where
  "sync_exit_chunk now f api batch c =
     (let normalizedBatch = map normalizePubkey batch
      in case fst (getValidatorStatusesBatch api normalizedBatch) of
           Inl err \<Rightarrow> Running c
         | Inr statuses \<Rightarrow>
             (case chunk_transaction (update_exit_validators now) ''unknown'' False f
                     (build_statusMap statuses) normalizedBatch c of
                Resolved c' \<Rightarrow> Running c'
              | Rejected err c' \<Rightarrow> Running c'
              | Died d \<Rightarrow> Crashed d))"

text \<open>
  \<^verbatim>\<open>
  const BATCH_SIZE = 500;
  for (let i = 0; i < validators.length; i += BATCH_SIZE) {
    const batch = validators.slice(i, i + BATCH_SIZE);
    ...
  }
  \<close>
  \<open>clock i\<close> and \<open>faults_at i\<close> are the time and the storage faults of the chunk that
  starts at index i. The loop ends with the process.
\<close>

function sync_exit_loop ::
  "(nat \<Rightarrow> nat) \<Rightarrow> (nat \<Rightarrow> faults) \<Rightarrow> beacon_api \<Rightarrow> string list \<Rightarrow> nat \<Rightarrow> conn
   \<Rightarrow> run_result" where
  "sync_exit_loop clock faults_at api validators i c =
     (if i < length validators
      then (case sync_exit_chunk (clock i) (faults_at i) api (slice validators i (i + 500)) c of
              Running c' \<Rightarrow> sync_exit_loop clock faults_at api validators (i + 500) c'
            | Crashed d \<Rightarrow> Crashed d)
      else Running c)"
  by pat_completeness auto
termination
  by (relation "measure (\<lambda>(clock, faults_at, api, validators, i, c). length validators - i)")
    auto

declare sync_exit_loop.simps [simp del]

text \<open>
  \<open>POST /api/sync-exit-statuses\<close>: the keys are read with
  \<open>SELECT pubkey FROM exit_validators\<close>, the acknowledgement (message and total) is sent,
  and the loop runs.
\<close>

definition sync_exit_statuses ::
  "(nat \<Rightarrow> nat) \<Rightarrow> (nat \<Rightarrow> faults) \<Rightarrow> beacon_api \<Rightarrow> conn \<Rightarrow> (string \<times> nat) \<times> run_result" where
  "sync_exit_statuses clock faults_at api c =
     (let validators = map e_pubkey (t_exit_validators (current c))
      in if length validators = 0 then ((''No exit validators to sync'', 0), Running c)
         else ((''Sync started'', length validators),
               sync_exit_loop clock faults_at api validators 0 c))"

text \<open>
  The same for \<open>POST /api/sync-statuses\<close>, whose keys are normalized before the
  \<open>try\<close> block, whose \<open>stmt.run\<close> has a callback and whose default status is
  \<open>inactive\<close>:
  \<^verbatim>\<open>
  const batch = validators.slice(i, i + BATCH_SIZE);
  const pubkeys = batch.map(v => normalizePubkey(v.pubkey));
  try {
    const statuses = await getValidatorStatusesBatch(pubkeys);
    ... statusMap ... transaction ... delay ...
  } catch (error) {
    console.error(`[${currentBatch}/${totalBatches}] Error processing batch:`, error.message);
    // Continue with next batch even if current batch fails
  }
  \<close>
\<close>

definition sync_chunk ::
  "nat \<Rightarrow> faults \<Rightarrow> beacon_api \<Rightarrow> string list \<Rightarrow> conn \<Rightarrow> run_result" where
  "sync_chunk now f api batch c =
     (let pubkeys = map normalizePubkey batch
      in case fst (getValidatorStatusesBatch api pubkeys) of
           Inl err \<Rightarrow> Running c
         | Inr statuses \<Rightarrow>
             (case chunk_transaction (update_validators now) ''inactive'' True f
                     (build_statusMap statuses) pubkeys c of
                Resolved c' \<Rightarrow> Running c'
              | Rejected err c' \<Rightarrow> Running c'
              | Died d \<Rightarrow> Crashed d))"

function sync_loop ::
  "(nat \<Rightarrow> nat) \<Rightarrow> (nat \<Rightarrow> faults) \<Rightarrow> beacon_api \<Rightarrow> string list \<Rightarrow> nat \<Rightarrow> conn
   \<Rightarrow> run_result" where
  "sync_loop clock faults_at api validators i c =
     (if i < length validators
      then (case sync_chunk (clock i) (faults_at i) api (slice validators i (i + 500)) c of
              Running c' \<Rightarrow> sync_loop clock faults_at api validators (i + 500) c'
            | Crashed d \<Rightarrow> Crashed d)
      else Running c)"
  by pat_completeness auto
termination
  by (relation "measure (\<lambda>(clock, faults_at, api, validators, i, c). length validators - i)")
    auto

declare sync_loop.simps [simp del]

definition sync_statuses ::
  "(nat \<Rightarrow> nat) \<Rightarrow> (nat \<Rightarrow> faults) \<Rightarrow> beacon_api \<Rightarrow> conn \<Rightarrow> (string \<times> nat) \<times> run_result" where
  "sync_statuses clock faults_at api c =
     (let validators = map pubkey (t_validators (current c))
      in if length validators = 0 then ((''No validators to sync'', 0), Running c)
         else ((''Sync started'', length validators),
               sync_loop clock faults_at api validators 0 c))"

text \<open>No storage fault.\<close>

definition no_faults :: faults where
  "no_faults = \<lparr>run_fault = (\<lambda>k. False), finalize_fault = False, commit_fault = False\<rparr>"

text \<open>
  For the statements about a chunk: the keys of the chunk whose \<open>stmt.run\<close> does not
  fail, and the row an \<open>UPDATE\<close> writes in place of a row it matches.
\<close>

fun applied_keys :: "(nat \<Rightarrow> bool) \<Rightarrow> nat \<Rightarrow> string list \<Rightarrow> string set" where
  "applied_keys fault k [] = {}"
| "applied_keys fault k (pk # pks) =
     (if fault k then {} else {pk}) \<union> applied_keys fault (Suc k) pks"

definition set_exit :: "nat \<Rightarrow> (string \<rightharpoonup> string) \<Rightarrow> exit_validator \<Rightarrow> exit_validator" where
  "set_exit now statusMap e =
     e\<lparr>e_status := or_default (statusMap (e_pubkey e)) ''unknown'', e_updated_at := now\<rparr>"

definition set_validator :: "nat \<Rightarrow> (string \<rightharpoonup> string) \<Rightarrow> validator \<Rightarrow> validator" where
  "set_validator now statusMap v =
     v\<lparr>status := or_default (statusMap (pubkey v)) ''inactive'', updated_at := now\<rparr>"

text \<open>
  Example data: a beacon API whose bulk endpoint knows the key \<open>0xaa\<close> only, a connection
  with two validators and one exit batch of two keys, and two fault patterns.
\<close>

definition example_bulk_api :: beacon_api where
  "example_bulk_api =
     \<lparr>post_validators = (\<lambda>ids. Inr (Some [\<lparr>bv_status = ''active_ongoing'', bv_pubkey = ''0xaa'',
                                              effective_balance = ''32000000000'', slashed = False\<rparr>])),
      get_validator = (\<lambda>k. GetEmpty)\<rparr>"

definition example_conn :: conn where
  "example_conn =
     \<lparr>current =
        \<lparr>t_validators =
           [\<lparr>pubkey = ''0xaa'', provider = ''Lido'', status = ''pending'',
             json_filename = None, bucket_no = Some ''1'', updated_at = 0\<rparr>,
            \<lparr>pubkey = ''0xbb'', provider = ''Lido'', status = ''pending'',
             json_filename = None, bucket_no = Some ''2'', updated_at = 0\<rparr>],
         t_exit_batches =
           [\<lparr>b_id = 1, filename = ''exit.csv'', uploaded_at = 0, total_validators = 2\<rparr>],
         t_exit_validators =
           [\<lparr>e_id = 1, batch_id = 1, e_pubkey = ''0xaa'', e_status = ''pending'', e_updated_at = 0\<rparr>,
            \<lparr>e_id = 2, batch_id = 1, e_pubkey = ''0xbb'', e_status = ''pending'', e_updated_at = 0\<rparr>]\<rparr>,
      saved = None\<rparr>"


definition finalize_fails :: faults where
  "finalize_fails = \<lparr>run_fault = (\<lambda>k. False), finalize_fault = True, commit_fault = False\<rparr>"

section \<open>Aggregation engine (server/routes.js)\<close>

text \<open>
  The SQL of the two statistics handlers. \<open>SUM(CASE WHEN c THEN 1 ELSE 0 END)\<close> is
  \<open>count_where\<close>; over no rows SQL gives \<open>NULL\<close>, which the handlers turn into 0 with
  \<open>|| 0\<close>. \<open>GROUP BY\<close> gives one group per key value present, here in ascending key
  order (byte-wise on text, \<open>NULL\<close> first). \<open>a LEFT JOIN b ON c\<close> pairs each row of a
  with every matching row of b, or with \<open>NULL\<close> when there is none.
\<close>

record counts =
  total :: nat
  active :: nat
  exit_queue :: nat
  inactive :: nat

definition count_where :: "('a \<Rightarrow> bool) \<Rightarrow> 'a list \<Rightarrow> nat" where
  "count_where P rows = sum_list (map (\<lambda>r. if P r then 1 else 0) rows)"

definition group_by :: "('r \<Rightarrow> 'k::linorder) \<Rightarrow> 'r list \<Rightarrow> ('k \<times> 'r list) list" where
  "group_by key rows =
     map (\<lambda>k. (k, filter (\<lambda>r. key r = k) rows)) (sort (remdups (map key rows)))"

definition left_join :: "('a \<Rightarrow> 'b \<Rightarrow> bool) \<Rightarrow> 'a list \<Rightarrow> 'b list \<Rightarrow> ('a \<times> 'b option) list" where
  "left_join on xs ys =
     concat (map (\<lambda>x. if filter (on x) ys = [] then [(x, None)]
                        else map (\<lambda>y. (x, Some y)) (filter (on x) ys)) xs)"

definition coalesce :: "string option \<Rightarrow> string \<Rightarrow> string" where
  "coalesce v dflt = (case v of None \<Rightarrow> dflt | Some x \<Rightarrow> x)"

subsection \<open>GET /api/exit-statistics\<close>

text \<open>
  \<^verbatim>\<open>
  SELECT COUNT(*) as total,
    SUM(CASE WHEN status = 'active' THEN 1 ELSE 0 END) as active,
    SUM(CASE WHEN status = 'exit_queue' THEN 1 ELSE 0 END) as exit_queue,
    SUM(CASE WHEN status = 'inactive' OR status = 'pending' THEN 1 ELSE 0 END) as inactive
  FROM exit_validators
  \<close>
\<close>

definition exit_totals :: "exit_validator list \<Rightarrow> counts" where
  "exit_totals rows =
     \<lparr>total = length rows,
      active = count_where (\<lambda>e. e_status e = ''active'') rows,
      exit_queue = count_where (\<lambda>e. e_status e = ''exit_queue'') rows,
      inactive = count_where (\<lambda>e. e_status e = ''inactive'' \<or> e_status e = ''pending'') rows\<rparr>"

text \<open>
  The aggregates of the other three queries, over the \<open>e\<close> side of the joined rows of a
  group; \<open>e\<close> is \<open>NULL\<close> in the row of a batch without validators.
  \<^verbatim>\<open>
  COUNT(e.id) as total,
  SUM(CASE WHEN e.status = 'active' THEN 1 ELSE 0 END) as active,
  SUM(CASE WHEN e.status = 'exit_queue' THEN 1 ELSE 0 END) as exit_queue,
  SUM(CASE WHEN e.status = 'inactive' OR e.status = 'pending' THEN 1 ELSE 0 END) as inactive
  \<close>
\<close>

definition exit_aggregate :: "exit_validator option list \<Rightarrow> counts" where
  "exit_aggregate es =
     \<lparr>total = count_where (\<lambda>e. e \<noteq> None) es,
      active = count_where (\<lambda>e. map_option e_status e = Some ''active'') es,
      exit_queue = count_where (\<lambda>e. map_option e_status e = Some ''exit_queue'') es,
      inactive = count_where (\<lambda>e. map_option e_status e = Some ''inactive''
                                   \<or> map_option e_status e = Some ''pending'') es\<rparr>"

text \<open>
  \<^verbatim>\<open>
  SELECT b.id, b.filename, b.uploaded_at, COUNT(e.id) as total, ...
  FROM exit_batches b LEFT JOIN exit_validators e ON b.id = e.batch_id
  GROUP BY b.id ORDER BY b.uploaded_at DESC
  \<close>
  \<open>id\<close> is the primary key of \<open>exit_batches\<close>: each batch is a group of its own.
\<close>

record batch_stats = counts +
  row_id :: nat
  row_filename :: string
  row_uploaded_at :: nat

definition byBatch_query :: "database \<Rightarrow> batch_stats list" where
  "byBatch_query d =
     rev (sort_key row_uploaded_at
       (map (\<lambda>b. counts.extend
                    (exit_aggregate
                       (map snd (left_join (\<lambda>b e. b_id b = batch_id e) [b] (t_exit_validators d))))
                    \<lparr>row_id = b_id b, row_filename = filename b, row_uploaded_at = uploaded_at b\<rparr>)
          (t_exit_batches d)))"

text \<open>
  \<^verbatim>\<open>
  SELECT COALESCE(v.provider, 'Unknown') as provider, COUNT(e.id) as total, ...
  FROM exit_validators e LEFT JOIN validators v ON e.pubkey = v.pubkey
  WHERE e.batch_id = ?
  GROUP BY v.provider
  \<close>
  and, for each row, \<open>providers[row.provider] = { total: row.total || 0, ... }\<close>.
\<close>

definition byProvider_query :: "database \<Rightarrow> nat \<Rightarrow> (string \<times> counts) list" where
  "byProvider_query d bid =
     map (\<lambda>(k, g). (coalesce k ''Unknown'', exit_aggregate (map (\<lambda>r. Some (fst r)) g)))
       (group_by (\<lambda>r. map_option provider (snd r))
          (filter (\<lambda>r. batch_id (fst r) = bid)
             (left_join (\<lambda>e v. e_pubkey e = pubkey v) (t_exit_validators d) (t_validators d))))"

definition exit_byProvider :: "database \<Rightarrow> nat \<Rightarrow> (string \<rightharpoonup> counts)" where
  "exit_byProvider d bid =
     fold (\<lambda>row providers. providers(fst row \<mapsto> snd row)) (byProvider_query d bid) Map.empty"

text \<open>
  \<^verbatim>\<open>
  SELECT COALESCE(v.provider, 'Unknown') as provider,
         COALESCE(v.bucket_no, 'Unknown') as bucket_no, COUNT(e.id) as total, ...
  FROM exit_validators e LEFT JOIN validators v ON e.pubkey = v.pubkey
  WHERE e.batch_id = ? AND v.provider IS NOT NULL AND v.bucket_no IS NOT NULL
  GROUP BY v.provider, v.bucket_no
  \<close>
  and, for each row,
  \<^verbatim>\<open>
  if (!buckets[row.provider]) { buckets[row.provider] = {}; }
  buckets[row.provider][row.bucket_no] = { total: row.total || 0, ... };
  \<close>
\<close>

definition byBucket_query :: "database \<Rightarrow> nat \<Rightarrow> (string \<times> string \<times> counts) list" where
  "byBucket_query d bid =
     map (\<lambda>(k, g). (coalesce (fst k) ''Unknown'', coalesce (snd k) ''Unknown'',
                      exit_aggregate (map (\<lambda>r. Some (fst r)) g)))
       (group_by (\<lambda>r. (map_option provider (snd r), Option.bind (snd r) bucket_no))
          (filter (\<lambda>r. batch_id (fst r) = bid \<and> map_option provider (snd r) \<noteq> None
                       \<and> Option.bind (snd r) bucket_no \<noteq> None)
             (left_join (\<lambda>e v. e_pubkey e = pubkey v) (t_exit_validators d) (t_validators d))))"

definition bucket_upd ::
  "string \<times> string \<times> counts \<Rightarrow> (string \<rightharpoonup> string \<rightharpoonup> counts) \<Rightarrow> (string \<rightharpoonup> string \<rightharpoonup> counts)" where
  "bucket_upd row buckets =
     (let buckets1 = (if buckets (fst row) = None then buckets(fst row \<mapsto> Map.empty)
                      else buckets)
      in case buckets1 (fst row) of
           None \<Rightarrow> buckets1
         | Some inner \<Rightarrow> buckets1(fst row \<mapsto> inner(fst (snd row) \<mapsto> snd (snd row))))"

definition exit_byBucket :: "database \<Rightarrow> nat \<Rightarrow> (string \<rightharpoonup> string \<rightharpoonup> counts)" where
  "exit_byBucket d bid = fold bucket_upd (byBucket_query d bid) Map.empty"

text \<open>
  The response: \<open>totals\<close>, \<open>byBatch\<close> and \<open>byBatchDetail\<close>, which holds
  \<open>{ byProvider, byBucket }\<close> under the id of each batch of \<open>byBatch\<close>
  (\<open>lastUpdate\<close>, a time and not a count, is left out).
\<close>

record batch_detail =
  byProvider :: "string \<rightharpoonup> counts"
  byBucket :: "string \<rightharpoonup> string \<rightharpoonup> counts"

record exit_statistics_response =
  es_totals :: counts
  es_byBatch :: "batch_stats list"
  es_byBatchDetail :: "nat \<rightharpoonup> batch_detail"

definition exit_statistics :: "database \<Rightarrow> exit_statistics_response" where
  "exit_statistics d =
     \<lparr>es_totals = exit_totals (t_exit_validators d),
      es_byBatch = byBatch_query d,
      es_byBatchDetail =
        fold (\<lambda>batch byBatchDetail.
                byBatchDetail(row_id batch \<mapsto>
                  \<lparr>byProvider = exit_byProvider d (row_id batch),
                   byBucket = exit_byBucket d (row_id batch)\<rparr>))
          (byBatch_query d) Map.empty\<rparr>"

subsection \<open>GET /api/statistics\<close>

text \<open>
  \<^verbatim>\<open>
  SELECT provider, status, COUNT(*) as count FROM validators
  GROUP BY provider, status ORDER BY provider, status
  \<close>
\<close>

definition stats_query :: "validator list \<Rightarrow> (string \<times> string \<times> nat) list" where
  "stats_query vs =
     map (\<lambda>(k, g). (fst k, snd k, length g)) (group_by (\<lambda>v. (provider v, status v)) vs)"

text \<open>
  The objects \<open>{ active: 0, exit_queue: 0, inactive: 0, total: 0 }\<close> are maps from
  property names to numbers; \<open>get_count\<close> reads a property that is there (\<open>total\<close>
  always is). The two statements
  \<^verbatim>\<open>
  formatted[provider][status] = count;
  formatted[provider].total += count;
  \<close>
  are \<open>add_count\<close>.
\<close>

definition init_counts :: "string \<rightharpoonup> nat" where
  "init_counts = [''active'' \<mapsto> 0, ''exit_queue'' \<mapsto> 0, ''inactive'' \<mapsto> 0, ''total'' \<mapsto> 0]"

definition get_count :: "(string \<rightharpoonup> nat) \<Rightarrow> string \<Rightarrow> nat" where
  "get_count obj k = (case obj k of None \<Rightarrow> 0 | Some n \<Rightarrow> n)"

definition add_count :: "string \<Rightarrow> nat \<Rightarrow> (string \<rightharpoonup> nat) \<Rightarrow> (string \<rightharpoonup> nat)" where
  "add_count st n obj =
     (let obj1 = obj(st \<mapsto> n) in obj1(''total'' \<mapsto> get_count obj1 ''total'' + n))"

text \<open>
  \<^verbatim>\<open>
  const formatted = { Lido: {...}, Etherfi: {...}, Mantle: {...} };
  stats.forEach(stat => {
    ...
    if (formatted[provider]) {
      formatted[provider][status] = count;
      formatted[provider].total += count;
    }
  });
  \<close>
  For a provider name that is a property of \<open>Object.prototype\<close> the test succeeds and
  the two writes land on an object that is no part of the response; the response is the
  same as when the test fails.
\<close>

definition formatted_init :: "string \<rightharpoonup> string \<rightharpoonup> nat" where
  "formatted_init =
     [''Lido'' \<mapsto> init_counts, ''Etherfi'' \<mapsto> init_counts, ''Mantle'' \<mapsto> init_counts]"

definition format_stat ::
  "string \<times> string \<times> nat \<Rightarrow> (string \<rightharpoonup> string \<rightharpoonup> nat) \<Rightarrow> (string \<rightharpoonup> string \<rightharpoonup> nat)" where
  "format_stat stat formatted =
     (case formatted (fst stat) of
        None \<Rightarrow> formatted
      | Some obj \<Rightarrow> formatted(fst stat \<mapsto> add_count (fst (snd stat)) (snd (snd stat)) obj))"

definition statistics_byProvider :: "validator list \<Rightarrow> (string \<rightharpoonup> string \<rightharpoonup> nat)" where
  "statistics_byProvider vs = fold format_stat (stats_query vs) formatted_init"

text \<open>
  \<^verbatim>\<open>
  SELECT COUNT(*) as total,
    SUM(CASE WHEN status = 'active' THEN 1 ELSE 0 END) as active,
    SUM(CASE WHEN status = 'exit_queue' THEN 1 ELSE 0 END) as exit_queue,
    SUM(CASE WHEN status = 'inactive' THEN 1 ELSE 0 END) as inactive
  FROM validators
  \<close>
\<close>

definition statistics_totals :: "validator list \<Rightarrow> counts" where
  "statistics_totals vs =
     \<lparr>total = length vs,
      active = count_where (\<lambda>v. status v = ''active'') vs,
      exit_queue = count_where (\<lambda>v. status v = ''exit_queue'') vs,
      inactive = count_where (\<lambda>v. status v = ''inactive'') vs\<rparr>"

text \<open>
  \<^verbatim>\<open>
  SELECT provider, bucket_no, status, COUNT(*) as count FROM validators
  WHERE provider IN ('Lido', 'Etherfi', 'Mantle') AND bucket_no IS NOT NULL
  GROUP BY provider, bucket_no, status ORDER BY provider, bucket_no, status
  \<close>
\<close>

definition bucketStats_query :: "validator list \<Rightarrow> (string \<times> string \<times> string \<times> nat) list" where
  "bucketStats_query vs =
     map (\<lambda>(k, g). (fst k, fst (snd k), snd (snd k), length g))
       (group_by (\<lambda>r. r)
          (concat (map (\<lambda>v. case bucket_no v of
                               None \<Rightarrow> []
                             | Some b \<Rightarrow>
                                 if provider v \<in> {''Lido'', ''Etherfi'', ''Mantle''}
                                 then [(provider v, b, status v)] else []) vs)))"

text \<open>
  \<^verbatim>\<open>
  const byBucket = {};
  bucketStats.forEach((stat) => {
    ...
    if (!byBucket[provider]) { byBucket[provider] = {}; }
    if (!byBucket[provider][bucketNo]) {
      byBucket[provider][bucketNo] = { active: 0, exit_queue: 0, inactive: 0, total: 0 };
    }
    byBucket[provider][bucketNo][status] = count;
    byBucket[provider][bucketNo].total += count;
  });
  \<close>
  A bucket label that is a property name of \<open>Object.prototype\<close> is kept by the map and
  dropped by the code (its writes land on the inherited object): the code reports the
  groupings of the map, or fewer.
\<close>

definition bucket_stat ::
  "string \<times> string \<times> string \<times> nat \<Rightarrow> (string \<rightharpoonup> string \<rightharpoonup> string \<rightharpoonup> nat)
   \<Rightarrow> (string \<rightharpoonup> string \<rightharpoonup> string \<rightharpoonup> nat)" where
  "bucket_stat stat buckets =
     (let prov = fst stat; bucketNo = fst (snd stat);
          inner = (case buckets prov of None \<Rightarrow> Map.empty | Some x \<Rightarrow> x);
          obj = (case inner bucketNo of None \<Rightarrow> init_counts | Some x \<Rightarrow> x)
      in buckets(prov \<mapsto>
           inner(bucketNo \<mapsto> add_count (fst (snd (snd stat))) (snd (snd (snd stat))) obj)))"

definition statistics_byBucket :: "validator list \<Rightarrow> (string \<rightharpoonup> string \<rightharpoonup> string \<rightharpoonup> nat)" where
  "statistics_byBucket vs = fold bucket_stat (bucketStats_query vs) Map.empty"

record statistics_response =
  st_byProvider :: "string \<rightharpoonup> string \<rightharpoonup> nat"
  st_byBucket :: "string \<rightharpoonup> string \<rightharpoonup> string \<rightharpoonup> nat"
  st_totals :: counts

definition statistics :: "database \<Rightarrow> statistics_response" where
  "statistics d =
     \<lparr>st_byProvider = statistics_byProvider (t_validators d),
      st_byBucket = statistics_byBucket (t_validators d),
      st_totals = statistics_totals (t_validators d)\<rparr>"

subsection \<open>Conservation, as the statistics are to satisfy it\<close>

text \<open>
  A grouping is conserved when its status counts add up to its total, and bounded when
  they do not exceed it. An object of \<open>GET /api/statistics\<close> is conserved when its
  \<open>active\<close>, \<open>exit_queue\<close>, \<open>inactive\<close> and \<open>pending\<close> counts (a count that is
  not there reads as 0) add up to its \<open>total\<close>. The groupings of the exit statistics
  are the overall totals, the rows of \<open>byBatch\<close> and the entries of \<open>byProvider\<close> and
  \<open>byBucket\<close> of every batch.
\<close>

definition conserved :: "'a counts_scheme \<Rightarrow> bool" where
  "conserved g = (total g = active g + exit_queue g + inactive g)"

definition bounded :: "'a counts_scheme \<Rightarrow> bool" where
  "bounded g = (active g + exit_queue g + inactive g \<le> total g)"

definition three_statuses :: "string set" where
  "three_statuses = {''active'', ''exit_queue'', ''inactive''}"

definition four_statuses :: "string set" where
  "four_statuses = {''active'', ''exit_queue'', ''inactive'', ''pending''}"

definition sum4 :: "(string \<rightharpoonup> nat) \<Rightarrow> nat" where
  "sum4 obj = get_count obj ''active'' + get_count obj ''exit_queue''
              + get_count obj ''inactive'' + get_count obj ''pending''"

definition object_conserved :: "(string \<rightharpoonup> nat) \<Rightarrow> bool" where
  "object_conserved obj = (get_count obj ''total'' = sum4 obj)"

definition exit_groupings :: "exit_statistics_response \<Rightarrow> counts set" where
  "exit_groupings R =
     {es_totals R} \<union> counts.truncate ` set (es_byBatch R)
     \<union> {g. \<exists>bid det label. es_byBatchDetail R bid = Some det \<and> byProvider det label = Some g}
     \<union> {g. \<exists>bid det prov inner b. es_byBatchDetail R bid = Some det
              \<and> byBucket det prov = Some inner \<and> inner b = Some g}"

text \<open>Reading a nested object, and a database after a sync, for the examples.\<close>

definition lookup2 :: "('a \<rightharpoonup> 'b \<rightharpoonup> 'c) \<Rightarrow> 'a \<Rightarrow> 'b \<Rightarrow> 'c option" where
  "lookup2 m a b = (case m a of None \<Rightarrow> None | Some inner \<Rightarrow> inner b)"

definition example_synced_db :: database where
  "example_synced_db =
     \<lparr>t_validators =
        [\<lparr>pubkey = ''0xaa'', provider = ''Lido'', status = ''active'',
          json_filename = None, bucket_no = Some ''1'', updated_at = 5\<rparr>,
         \<lparr>pubkey = ''0xbb'', provider = ''Lido'', status = ''inactive'',
          json_filename = None, bucket_no = Some ''2'', updated_at = 5\<rparr>],
      t_exit_batches =
        [\<lparr>b_id = 1, filename = ''exit.csv'', uploaded_at = 0, total_validators = 2\<rparr>],
      t_exit_validators =
        [\<lparr>e_id = 1, batch_id = 1, e_pubkey = ''0xaa'', e_status = ''active'', e_updated_at = 5\<rparr>,
         \<lparr>e_id = 2, batch_id = 1, e_pubkey = ''0xbb'', e_status = ''pending'', e_updated_at = 0\<rparr>]\<rparr>"

section \<open>Properties of the key normalizer\<close>

lemmas char_eval = char_of_def bit_Suc_0_iff

lemma toLowerChar_idem: "toLowerChar (toLowerChar c) = toLowerChar c"
  by (simp add: toLowerChar_def)

lemma toLowerCase_idem: "toLowerCase (toLowerCase s) = toLowerCase s"
  by (simp add: toLowerCase_def toLowerChar_idem)

lemma toLowerChar_not_ws: "\<not> isWhiteSpace c \<Longrightarrow> \<not> isWhiteSpace (toLowerChar c)"
  by (auto simp: toLowerChar_def isWhiteSpace_def)

lemma last_dropWhile: "dropWhile P xs \<noteq> [] \<Longrightarrow> last (dropWhile P xs) = last xs"
  by (induction xs) (auto split: if_splits)

lemma trim_fixed:
  assumes "xs \<noteq> []" "\<not> isWhiteSpace (hd xs)" "\<not> isWhiteSpace (last xs)"
  shows "trim xs = xs"
proof -
  from assms have a: "dropWhile isWhiteSpace xs = xs"
    by (cases xs) auto
  from assms have "rev xs \<noteq> []" "\<not> isWhiteSpace (hd (rev xs))"
    by (simp_all add: hd_rev)
  then have "dropWhile isWhiteSpace (rev xs) = rev xs"
    by (cases "rev xs") auto
  with a show ?thesis by (simp add: trim_def)
qed

lemma trim_ends:
  assumes "trim s \<noteq> []"
  shows "\<not> isWhiteSpace (hd (trim s)) \<and> \<not> isWhiteSpace (last (trim s))"
proof -
  let ?a = "dropWhile isWhiteSpace s"
  let ?b = "dropWhile isWhiteSpace (rev ?a)"
  from assms have b: "?b \<noteq> []" by (simp add: trim_def)
  have a: "?a \<noteq> []"
  proof
    assume h: "?a = []"
    have "?b = []" unfolding h by simp
    with b show False by simp
  qed
  have "last (trim s) = hd ?b" using b by (simp add: trim_def last_rev)
  moreover have "\<not> isWhiteSpace (hd ?b)" using b by (rule hd_dropWhile)
  moreover have "hd (trim s) = last ?b" using b by (simp add: trim_def hd_rev)
  moreover have "last ?b = last (rev ?a)" using b by (rule last_dropWhile)
  moreover have "last (rev ?a) = hd ?a" using a by (simp add: last_rev)
  moreover have "\<not> isWhiteSpace (hd ?a)" using a by (rule hd_dropWhile)
  ultimately show ?thesis by simp
qed

lemma x_not_ws: "\<not> isWhiteSpace CHR ''x''" "\<not> isWhiteSpace CHR ''0''"
  by (simp_all add: isWhiteSpace_def)

lemma toLowerCase_0x:
  "toLowerCase (CHR ''0'' # CHR ''x'' # s) = CHR ''0'' # CHR ''x'' # toLowerCase s"
  by (simp add: toLowerCase_def toLowerChar_def)

lemma normalizePubkey_shape:
  assumes "k \<noteq> []"
  shows "\<exists>r. normalizePubkey k = ''0x'' @ toLowerCase r
             \<and> (r \<noteq> [] \<longrightarrow> \<not> isWhiteSpace (last r))"
proof (cases "startsWith (trim k) ''0x''")
  case True
  then obtain r where r: "trim k = ''0x'' @ r"
    by (metis append_take_drop_id startsWith_def)
  then have ne: "trim k \<noteq> []" by simp
  have "r \<noteq> [] \<longrightarrow> \<not> isWhiteSpace (last r)"
    using trim_ends [OF ne] r by auto
  moreover have "normalizePubkey k = ''0x'' @ toLowerCase r"
    using assms True r by (simp add: normalizePubkey_def toLowerCase_0x)
  ultimately show ?thesis by blast
next
  case False
  have "trim k \<noteq> [] \<longrightarrow> \<not> isWhiteSpace (last (trim k))"
    using trim_ends by blast
  moreover have "normalizePubkey k = ''0x'' @ toLowerCase (trim k)"
    using assms False by (simp add: normalizePubkey_def toLowerCase_0x)
  ultimately show ?thesis by blast
qed

lemma normalizePubkey_fixed:
  assumes "n = ''0x'' @ toLowerCase r" "r \<noteq> [] \<longrightarrow> \<not> isWhiteSpace (last r)"
  shows "normalizePubkey n = n"
proof -
  have ne: "n \<noteq> []" using assms by simp
  have hd: "\<not> isWhiteSpace (hd n)" using assms x_not_ws by simp
  have "\<not> isWhiteSpace (last n)"
  proof (cases "r = []")
    case True
    then show ?thesis using assms x_not_ws by (simp add: toLowerCase_def)
  next
    case False
    then have "last n = toLowerChar (last r)"
      using assms by (simp add: toLowerCase_def last_map)
    then show ?thesis using assms False toLowerChar_not_ws by simp
  qed
  then have t: "trim n = n" using ne hd by (simp add: trim_fixed)
  have s: "startsWith n ''0x''" using assms by (simp add: startsWith_def)
  have "toLowerCase n = n"
    using assms by (simp add: toLowerCase_0x toLowerCase_idem)
  then show ?thesis using ne t s by (simp add: normalizePubkey_def)
qed

text \<open>
  C7. Key normalization is idempotent: normalizing the result of a normalization returns
  it unchanged, for every key string; and the empty string is returned as it is.
\<close>

theorem normalizePubkey_idempotent:
  "normalizePubkey (normalizePubkey k) = normalizePubkey k \<and> normalizePubkey [] = []"
proof (cases "k = []")
  case True
  then show ?thesis by (simp add: normalizePubkey_def)
next
  case False
  then obtain r where "normalizePubkey k = ''0x'' @ toLowerCase r"
    "r \<noteq> [] \<longrightarrow> \<not> isWhiteSpace (last r)"
    using normalizePubkey_shape by blast
  then have "normalizePubkey (normalizePubkey k) = normalizePubkey k"
    by (rule normalizePubkey_fixed)
  then show ?thesis by (simp add: normalizePubkey_def)
qed

theorem normalizePubkey_idempotent_witness:
  "normalizePubkey '' 0XAb '' = ''0x0xab''
   \<and> normalizePubkey (normalizePubkey '' 0XAb '') = ''0x0xab''
   \<and> normalizePubkey [] = []"
  using normalizePubkey_idempotent [of "'' 0XAb ''"]
  by (simp add: normalizePubkey_def trim_def isWhiteSpace_def startsWith_def
      toLowerCase_def toLowerChar_def char_eval)

lemma dropWhile_keep: "\<not> P y \<Longrightarrow> dropWhile P (xs @ y # ys) = dropWhile P xs @ y # ys"
  by (induction xs) auto

lemma trim_cons2:
  assumes "\<not> isWhiteSpace a" "\<not> isWhiteSpace b"
  shows "trim (a # b # r) = a # b # rev (dropWhile isWhiteSpace (rev r))"
proof -
  have "dropWhile isWhiteSpace (rev r @ b # [a]) = dropWhile isWhiteSpace (rev r) @ b # [a]"
    using assms(2) by (rule dropWhile_keep)
  then show ?thesis using assms(1) by (simp add: trim_def)
qed

lemma toLowerCase_0X:
  "toLowerCase (CHR ''0'' # CHR ''X'' # s) = CHR ''0'' # CHR ''x'' # toLowerCase s"
  by (simp add: toLowerCase_def toLowerChar_def char_eval)

lemma normalizePubkey_upper_prefix:
  assumes "startsWith (trim k) ''0X''"
  shows "\<exists>r. trim k = ''0X'' @ r \<and> normalizePubkey k = ''0x0x'' @ toLowerCase r"
proof -
  from assms obtain r where r: "trim k = ''0X'' @ r"
    by (metis append_take_drop_id startsWith_def)
  then have "k \<noteq> []" by (auto simp: trim_def)
  then have "normalizePubkey k = ''0x0x'' @ toLowerCase r"
    using r by (simp add: normalizePubkey_def startsWith_def toLowerCase_0x toLowerCase_0X)
  with r show ?thesis by blast
qed

text \<open>
  C9. The prefix test of the normalizer is case-sensitive: when the trimmed input begins
  with \<open>0X\<close> the result begins with \<open>0x0x\<close>, and the two spellings \<open>0x\<close>r and \<open>0X\<close>r
  of one key are normalized to different strings, whatever r is.
\<close>

theorem normalizePubkey_prefix_case_sensitive:
  "(k \<noteq> [] \<and> startsWith (trim k) ''0X'' \<longrightarrow> startsWith (normalizePubkey k) ''0x0x'')
   \<and> normalizePubkey (''0x'' @ r) \<noteq> normalizePubkey (''0X'' @ r)"
proof
  show "k \<noteq> [] \<and> startsWith (trim k) ''0X'' \<longrightarrow> startsWith (normalizePubkey k) ''0x0x''"
    using normalizePubkey_upper_prefix [of k] by (auto simp: startsWith_def)
next
  let ?r = "rev (dropWhile isWhiteSpace (rev r))"
  have nws: "\<not> isWhiteSpace CHR ''X''" by (simp add: isWhiteSpace_def)
  have "trim (''0x'' @ r) = ''0x'' @ ?r"
    using x_not_ws by (simp add: trim_cons2)
  then have a: "normalizePubkey (''0x'' @ r) = ''0x'' @ toLowerCase ?r"
    by (simp add: normalizePubkey_def startsWith_def toLowerCase_0x)
  have "trim (''0X'' @ r) = ''0X'' @ ?r"
    using x_not_ws nws by (simp add: trim_cons2)
  then have b: "normalizePubkey (''0X'' @ r) = ''0x0x'' @ toLowerCase ?r"
    by (simp add: normalizePubkey_def startsWith_def toLowerCase_0x toLowerCase_0X)
  have "length (normalizePubkey (''0x'' @ r)) \<noteq> length (normalizePubkey (''0X'' @ r))"
    unfolding a b by simp
  then show "normalizePubkey (''0x'' @ r) \<noteq> normalizePubkey (''0X'' @ r)"
    by metis
qed

theorem normalizePubkey_prefix_case_sensitive_witness:
  "''0XAB'' \<noteq> [] \<and> startsWith (trim ''0XAB'') ''0X''
   \<and> startsWith (normalizePubkey ''0XAB'') ''0x0x''
   \<and> normalizePubkey ''0xAB'' = ''0xab'' \<and> normalizePubkey ''0XAB'' = ''0x0xab''
   \<and> normalizePubkey ''0xAB'' \<noteq> normalizePubkey ''0XAB''"
  using normalizePubkey_prefix_case_sensitive [of "''0XAB''" "''AB''"]
  by (simp add: normalizePubkey_def trim_def isWhiteSpace_def startsWith_def
      toLowerCase_def toLowerChar_def char_eval)

section \<open>Properties of the status mapper and of the oracle timeouts\<close>

text \<open>
  C4. The status mapper is total on strings and returns one of \<open>active\<close>,
  \<open>exit_queue\<close>, \<open>inactive\<close>: \<open>active\<close> exactly on \<open>active_ongoing\<close>,
  \<open>active_exiting\<close>, \<open>active_slashed\<close>; \<open>exit_queue\<close> exactly on
  \<open>pending_queued\<close>, \<open>exited_unslashed\<close>, \<open>exited_slashed\<close>; \<open>inactive\<close> on every
  other label.
\<close>

theorem mapBeaconStatus_total:
  "mapBeaconStatus s \<in> {''active'', ''exit_queue'', ''inactive''}
   \<and> ((mapBeaconStatus s = ''active'')
        = (s \<in> {''active_ongoing'', ''active_exiting'', ''active_slashed''}))
   \<and> ((mapBeaconStatus s = ''exit_queue'')
        = (s \<in> {''pending_queued'', ''exited_unslashed'', ''exited_slashed''}))
   \<and> ((mapBeaconStatus s = ''inactive'')
        = (s \<notin> {''active_ongoing'', ''active_exiting'', ''active_slashed'',
                  ''pending_queued'', ''exited_unslashed'', ''exited_slashed''}))"
  by (simp add: mapBeaconStatus_def)

theorem mapBeaconStatus_total_witness:
  "mapBeaconStatus ''active_exiting'' = ''active''
   \<and> mapBeaconStatus ''exited_slashed'' = ''exit_queue''
   \<and> mapBeaconStatus ''withdrawal_done'' = ''inactive''
   \<and> mapBeaconStatus ''withdrawal_done'' \<in> {''active'', ''exit_queue'', ''inactive''}"
  using mapBeaconStatus_total [of "''withdrawal_done''"]
    mapBeaconStatus_total [of "''active_exiting''"]
    mapBeaconStatus_total [of "''exited_slashed''"]
  by simp

text \<open>
  C8, as stated: the bulk timeout lies between 8 and 10 times the single-key timeout.
  The configured constants do not satisfy this.
\<close>

theorem timeout_ratio_counterexample:
  "\<not> (8 * single_timeout \<le> bulk_timeout \<and> bulk_timeout \<le> 10 * single_timeout)"
  by (simp add: single_timeout_def bulk_timeout_def)

text \<open>
  C8, amended: the bulk timeout (60000 ms) is exactly 6 times the single-key timeout
  (10000 ms), hence strictly larger than it.
\<close>

theorem timeout_ratio:
  "bulk_timeout = 6 * single_timeout \<and> single_timeout < bulk_timeout"
  by (simp add: single_timeout_def bulk_timeout_def)

section \<open>Properties of ingestion\<close>

lemma slice_drop: "slice xs i (i + n) @ drop (i + n) xs = drop i xs"
  by (simp add: slice_def add.commute [of i n] flip: drop_drop)

lemma upload_csv_loop_fold:
  "upload_csv_loop now vs i st = fold (upload_row now) (drop i vs) st"
proof (induction now vs i st rule: upload_csv_loop.induct)
  case (1 now validators i st)
  show ?case
  proof (cases "i < length validators")
    case True
    have "fold (upload_row now) (drop i validators) st
        = fold (upload_row now) (slice validators i (i + 100) @ drop (i + 100) validators) st"
      by (simp only: slice_drop)
    with True 1 show ?thesis
      by (simp add: upload_csv_loop.simps [of now validators i])
  next
    case False
    then show ?thesis by (simp add: upload_csv_loop.simps [of now validators i])
  qed
qed

lemma loadCSV_loop_fold:
  "loadCSV_loop now vs i st = fold (load_row now) (drop i vs) st"
proof (induction now vs i st rule: loadCSV_loop.induct)
  case (1 now validators i st)
  show ?case
  proof (cases "i < length validators")
    case True
    have "fold (load_row now) (drop i validators) st
        = fold (load_row now) (slice validators i (i + 100) @ drop (i + 100) validators) st"
      by (simp only: slice_drop)
    with True 1 show ?thesis
      by (simp add: loadCSV_loop.simps [of now validators i])
  next
    case False
    then show ?thesis by (simp add: loadCSV_loop.simps [of now validators i])
  qed
qed

lemma insert_or_replace_unique:
  "filter (\<lambda>v. pubkey v = pubkey row) (insert_or_replace row tbl) = [row]"
  by (simp add: insert_or_replace_def)

lemma insert_or_replace_pubkeys:
  "pubkey ` set (insert_or_replace row tbl) = insert (pubkey row) (pubkey ` set tbl)"
  by (auto simp: insert_or_replace_def)

lemma fold_upload_row_pubkeys:
  "pubkey ` set (fst (fold (upload_row now) vs st))
   = pubkey ` set (fst st) \<union> (\<lambda>r. normalizePubkey (r_pubkey r)) ` set vs"
  by (induction vs arbitrary: st)
     (auto simp: upload_row_def insert_or_replace_pubkeys Let_def)

lemma fold_upload_row_count: "snd (fold (upload_row now) vs st) = snd st + length vs"
  by (induction vs arbitrary: st) (auto simp: upload_row_def Let_def)

text \<open>
  The upsert of the loader script: whatever the table held and whatever rows came before,
  after loading a file whose last row has pubkey p the table has exactly one row for p,
  carrying that row's provider, file name and bucket, with status \<open>pending\<close>.
\<close>

lemma loadCSV_upsert:
  "filter (\<lambda>v. pubkey v = r_pubkey r) (snd (loadCSV now (vs @ [r]) tbl))
   = [\<lparr>pubkey = r_pubkey r, provider = r_provider r, status = ''pending'',
        json_filename = r_json_filename r, bucket_no = or_null (r_bucket_no r),
        updated_at = now\<rparr>]"
  by (simp add: loadCSV_def loadCSV_loop_fold load_row_def insert_or_replace_def)

text \<open>
  The same for the upload route, except for the bucket: the row for p has
  \<open>bucket_no = NULL\<close>, whatever bucket the uploaded row names.
\<close>

lemma upload_csv_loop_upsert:
  "filter (\<lambda>v. pubkey v = normalizePubkey (r_pubkey r))
     (fst (upload_csv_loop now (vs @ [r]) 0 (tbl, n)))
   = [\<lparr>pubkey = normalizePubkey (r_pubkey r), provider = r_provider r, status = ''pending'',
        json_filename = r_json_filename r, bucket_no = None, updated_at = now\<rparr>]"
  by (simp add: upload_csv_loop_fold upload_row_def insert_or_replace_def Let_def)

text \<open>
  Every upload with at least one parsed row, of a file that exists, ends the same way:
  the rows are in the table, the file is gone, and the handler's promise is rejected with
  \<open>ENOENT\<close> from the \<open>catch\<close> block, so that neither the success response nor the
  500 response is sent.
\<close>

lemma upload_csv_nonempty:
  assumes "validators \<noteq> []" "filePath \<in> files s"
  shows "upload_csv now (Some (filePath, Inr validators)) s
         = (Unhandled (SystemError (''ENOENT: no such file or directory, unlink '' @ filePath)),
            s\<lparr>db := (db s)\<lparr>t_validators :=
                       fst (fold (upload_row now) validators (t_validators (db s), 0))\<rparr>,
              files := files s - {filePath}\<rparr>)"
  using assms
  by (simp add: upload_csv_def upload_csv_try_def unlinkSync_def upload_csv_loop_fold Let_def)

lemma normalizePubkey_0xaa: "normalizePubkey ''0xaa'' = ''0xaa''"
  by (simp add: normalizePubkey_def trim_def isWhiteSpace_def startsWith_def
      toLowerCase_def toLowerChar_def)

text \<open>
  C5, on the upload route. The same pubkey is uploaded twice, first as
  \<open>(Lido, a.json, bucket 1)\<close> and then as \<open>(Etherfi, b.json, bucket 2)\<close>. One row is
  left, with the latest provider and file name and status \<open>pending\<close>, but its bucket
  is \<open>NULL\<close> and not the latest value 2. The loader script, given the same two rows,
  stores bucket 2.
\<close>

theorem upload_csv_drops_bucket:
  "t_validators (db (snd (upload_csv 2
       (Some (''up2'', Inr [\<lparr>r_pubkey = ''0xaa'', r_provider = ''Etherfi'',
                            r_json_filename = Some ''b.json'', r_bucket_no = Some ''2''\<rparr>]))
       (snd (upload_csv 1
          (Some (''up1'', Inr [\<lparr>r_pubkey = ''0xaa'', r_provider = ''Lido'',
                               r_json_filename = Some ''a.json'', r_bucket_no = Some ''1''\<rparr>]))
          \<lparr>db = \<lparr>t_validators = [], t_exit_batches = [], t_exit_validators = []\<rparr>,
           files = {''up1'', ''up2''}\<rparr>)))))
   = [\<lparr>pubkey = ''0xaa'', provider = ''Etherfi'', status = ''pending'',
        json_filename = Some ''b.json'', bucket_no = None, updated_at = 2\<rparr>]
   \<and> snd (loadCSV 2 [\<lparr>r_pubkey = ''0xaa'', r_provider = ''Etherfi'',
                       r_json_filename = Some ''b.json'', r_bucket_no = Some ''2''\<rparr>]
         (snd (loadCSV 1 [\<lparr>r_pubkey = ''0xaa'', r_provider = ''Lido'',
                           r_json_filename = Some ''a.json'', r_bucket_no = Some ''1''\<rparr>] [])))
   = [\<lparr>pubkey = ''0xaa'', provider = ''Etherfi'', status = ''pending'',
        json_filename = Some ''b.json'', bucket_no = Some ''2'', updated_at = 2\<rparr>]"
  by (simp add: upload_csv_nonempty upload_row_def insert_or_replace_def normalizePubkey_0xaa
      loadCSV_def loadCSV_loop_fold load_row_def or_null_def)

text \<open>
  C10, at one upload of one valid row. The row is persisted, and the handler ends with
  the \<open>ENOENT\<close> exception of the second \<open>fs.unlinkSync\<close>, thrown in the \<open>catch\<close>
  block before \<open>res.status(500)\<close> is reached: the handler sends no response at all.
\<close>

theorem upload_csv_no_response:
  "upload_csv 1
     (Some (''up1'', Inr [\<lparr>r_pubkey = ''0xaa'', r_provider = ''Lido'',
                          r_json_filename = Some ''a.json'', r_bucket_no = Some ''1''\<rparr>]))
     \<lparr>db = \<lparr>t_validators = [], t_exit_batches = [], t_exit_validators = []\<rparr>,
      files = {''up1''}\<rparr>
   = (Unhandled (SystemError ''ENOENT: no such file or directory, unlink up1''),
      \<lparr>db = \<lparr>t_validators =
               [\<lparr>pubkey = ''0xaa'', provider = ''Lido'', status = ''pending'',
                 json_filename = Some ''a.json'', bucket_no = None, updated_at = 1\<rparr>],
             t_exit_batches = [], t_exit_validators = []\<rparr>,
       files = {}\<rparr>)"
  by (simp add: upload_csv_nonempty upload_row_def insert_or_replace_def normalizePubkey_0xaa)

section \<open>Properties of the status oracle client\<close>

lemma chunk_promise_resolves: "fst (chunk_promise api pk) = Inr (lookup_result api pk)"
  by (simp add: chunk_promise_def getValidatorStatus_def lookup_result_def Let_def
      split: get_outcome.splits)

lemma promise_all_resolved: "promise_all (map Inr xs) = Inr xs"
  by (induction xs) simp_all

lemma chunk_promises_all:
  "promise_all (map fst (map (chunk_promise api) chunk)) = Inr (map (lookup_result api) chunk)"
proof -
  have "map fst (map (chunk_promise api) chunk) = map Inr (map (lookup_result api) chunk)"
    by (simp add: chunk_promise_resolves)
  then show ?thesis by (simp only: promise_all_resolved)
qed

lemma found_lookup:
  "map the (filter (\<lambda>r. r \<noteq> None) (map (lookup_result api) chunk)) = found api chunk"
  by (induction chunk) (auto simp: found_def lookup_result_def split: get_outcome.splits)

lemma found_append: "found api (xs @ ys) = found api xs @ found api ys"
  by (simp add: found_def)

lemma chunks_of_drop:
  "i < length xs \<Longrightarrow>
   chunks_of 50 (drop i xs) = slice xs i (i + 50) # chunks_of 50 (drop (i + 50) xs)"
  by (subst chunks_of.simps) (simp add: slice_def add.commute)

lemma chunks_of_Nil: "chunks_of n [] = []"
  by (subst chunks_of.simps) simp

lemma chunks_of_empty_iff: "chunks_of 50 xs = [] \<longleftrightarrow> xs = []"
  by (subst chunks_of.simps) simp

lemma chunked_trace_Cons:
  "chunked_trace api (c # cs) =
     concat (map (\<lambda>pk. snd (chunk_promise api pk)) c)
     @ (if cs = [] then [] else Sleep 200 # chunked_trace api cs)"
  by (cases cs) simp_all

lemma fallback_loop_eq:
  "fallback_loop api pks i st =
     (Inr (fst st @ found api (drop i pks)),
      snd st @ chunked_trace api (chunks_of 50 (drop i pks)))"
proof (induction api pks i st rule: fallback_loop.induct)
  case (1 api pubkeys i st)
  show ?case
  proof (cases "i < length pubkeys")
    case False
    then show ?thesis
      by (simp add: fallback_loop.simps [of api pubkeys i] found_def chunks_of_Nil)
  next
    case True
    let ?chunk = "slice pubkeys i (i + 50)"
    let ?evs = "snd st @ concat (map snd (map (chunk_promise api) ?chunk))"
    let ?st' = "(fst st @ map the (filter (\<lambda>r. r \<noteq> None) (map (lookup_result api) ?chunk)),
                 ?evs @ (if i + 50 < length pubkeys then [Sleep 200] else []))"
    have step: "fallback_loop api pubkeys i st = fallback_loop api pubkeys (i + 50) ?st'"
      using True
      by (simp add: fallback_loop.simps [of api pubkeys i st] chunk_promises_all Let_def
          del: map_map)
    have ih: "fallback_loop api pubkeys (i + 50) ?st' =
       (Inr (fst ?st' @ found api (drop (i + 50) pubkeys)),
        snd ?st' @ chunked_trace api (chunks_of 50 (drop (i + 50) pubkeys)))"
      using True by (intro "1.IH" [OF True refl refl refl chunk_promises_all]) 
    have d: "drop i pubkeys = ?chunk @ drop (i + 50) pubkeys"
      by (simp only: slice_drop)
    have res: "fst ?st' @ found api (drop (i + 50) pubkeys) = fst st @ found api (drop i pubkeys)"
      by (subst d) (simp only: fst_conv found_lookup found_append append_assoc)
    have nonempty: "(chunks_of 50 (drop (i + 50) pubkeys) = []) = (\<not> i + 50 < length pubkeys)"
      by (auto simp: chunks_of_empty_iff)
    have tr: "snd ?st' @ chunked_trace api (chunks_of 50 (drop (i + 50) pubkeys))
            = snd st @ chunked_trace api (chunks_of 50 (drop i pubkeys))"
      by (simp add: chunks_of_drop [OF True] chunked_trace_Cons nonempty comp_def chunks_of_Nil)
    show ?thesis by (simp only: step ih res tr)
  qed
qed


lemma chunks_of_concat: "concat (chunks_of (Suc n) xs) = xs"
proof (induction "Suc n" xs rule: chunks_of.induct)
  case (1 xs)
  then show ?case by (subst chunks_of.simps) auto
qed

lemma chunks_of_length: "\<forall>c \<in> set (chunks_of n xs). c \<noteq> [] \<and> length c \<le> n"
proof (induction n xs rule: chunks_of.induct)
  case (1 n xs)
  show ?case
  proof (cases "n = 0 \<or> xs = []")
    case True
    then show ?thesis by (subst chunks_of.simps) simp
  next
    case False
    with 1 have "\<forall>c \<in> set (chunks_of n (drop n xs)). c \<noteq> [] \<and> length c \<le> n" by simp
    with False show ?thesis by (subst chunks_of.simps) auto
  qed
qed

lemma chunked_trace_member:
  "c \<in> set cs \<Longrightarrow> k \<in> set c \<Longrightarrow> e \<in> set (snd (chunk_promise api k))
   \<Longrightarrow> e \<in> set (chunked_trace api cs)"
  by (induction cs) (auto simp: chunked_trace_Cons simp del: chunked_trace.simps)

lemma failure_logged:
  assumes "pk \<in> set pks" "get_validator api (normalizePubkey pk) = GetError code msg"
    "code \<noteq> Some 404"
  shows "Log (''Error fetching status for '' @ pk @ '': '' @ msg)
         \<in> set (chunked_trace api (chunks_of 50 pks))"
proof -
  have a: "Log (''Error fetching status for '' @ pk @ '': '' @ msg)
           \<in> set (snd (chunk_promise api pk))"
    using assms(2,3) by (simp add: chunk_promise_def getValidatorStatus_def Let_def)
  have "pk \<in> set (concat (chunks_of 50 pks))"
    using assms(1) chunks_of_concat [of 49 pks] by simp
  then obtain c where "c \<in> set (chunks_of 50 pks)" "pk \<in> set c" by auto
  then show ?thesis using a by (rule chunked_trace_member)
qed


lemma chunks_of_nth:
  "0 < n \<Longrightarrow> j < length (chunks_of n xs) \<Longrightarrow> chunks_of n xs ! j = slice xs (j * n) (j * n + n)"
proof (induction j arbitrary: xs)
  case 0
  then show ?case by (subst (asm) chunks_of.simps, subst chunks_of.simps) (auto simp: slice_def split: if_splits)
next
  case (Suc j)
  from Suc.prems have ne: "xs \<noteq> []" by (subst (asm) chunks_of.simps) (auto split: if_splits)
  with Suc.prems have eq: "chunks_of n xs = take n xs # chunks_of n (drop n xs)"
    by (subst chunks_of.simps) simp
  with Suc.prems have "j < length (chunks_of n (drop n xs))" by simp
  with Suc.IH Suc.prems(1) have "chunks_of n (drop n xs) ! j = slice (drop n xs) (j * n) (j * n + n)"
    by blast
  then show ?case by (simp add: eq slice_def add.commute)
qed

text \<open>
  C6. The batch fetch always resolves with a list. When the bulk request fails, the result
  is the list of the validators found by the per-key lookups, in the order of the keys
  (a key whose lookup fails or finds nothing contributes nothing); the lookups are done
  in consecutive chunks of 50 keys, with a pause between two chunks; and every per-key
  failure leaves its line in the log.
\<close>

theorem getValidatorStatusesBatch_fallback:
  "(\<exists>results. fst (getValidatorStatusesBatch api pubkeys) = Inr results)
   \<and> (post_validators api (map normalizePubkey pubkeys) = Inl err \<longrightarrow>
        getValidatorStatusesBatch api pubkeys
          = (Inr (found api pubkeys),
             BulkRequest (map normalizePubkey pubkeys)
             # Log (''Batch request failed, falling back to individual requests: '' @ message err)
             # chunked_trace api (chunks_of 50 pubkeys))
        \<and> concat (chunks_of 50 pubkeys) = pubkeys
        \<and> (\<forall>j < length (chunks_of 50 pubkeys).
              chunks_of 50 pubkeys ! j = slice pubkeys (j * 50) (j * 50 + 50))
        \<and> (\<forall>pk code msg.
              pk \<in> set pubkeys \<and> get_validator api (normalizePubkey pk) = GetError code msg
              \<and> code \<noteq> Some 404 \<longrightarrow>
              Log (''Error fetching status for '' @ pk @ '': '' @ msg)
                \<in> set (snd (getValidatorStatusesBatch api pubkeys))))"
proof (intro conjI impI)
  show "\<exists>results. fst (getValidatorStatusesBatch api pubkeys) = Inr results"
    by (simp add: getValidatorStatusesBatch_def fallback_loop_eq Let_def
        split: sum.splits option.splits)
next
  assume fail: "post_validators api (map normalizePubkey pubkeys) = Inl err"
  then show eq: "getValidatorStatusesBatch api pubkeys
          = (Inr (found api pubkeys),
             BulkRequest (map normalizePubkey pubkeys)
             # Log (''Batch request failed, falling back to individual requests: '' @ message err)
             # chunked_trace api (chunks_of 50 pubkeys))"
    by (simp add: getValidatorStatusesBatch_def fallback_loop_eq Let_def)
  show "concat (chunks_of 50 pubkeys) = pubkeys"
    using chunks_of_concat [of 49 pubkeys] by simp
  show "\<forall>j < length (chunks_of 50 pubkeys).
          chunks_of 50 pubkeys ! j = slice pubkeys (j * 50) (j * 50 + 50)"
    by (simp add: chunks_of_nth)
  show "\<forall>pk code msg.
          pk \<in> set pubkeys \<and> get_validator api (normalizePubkey pk) = GetError code msg
          \<and> code \<noteq> Some 404 \<longrightarrow>
          Log (''Error fetching status for '' @ pk @ '': '' @ msg)
            \<in> set (snd (getValidatorStatusesBatch api pubkeys))"
    using failure_logged [of _ pubkeys api] by (auto simp: eq)
qed

lemma normalizePubkey_0xbb: "normalizePubkey ''0xbb'' = ''0xbb''"
  by (simp add: normalizePubkey_def trim_def isWhiteSpace_def startsWith_def
      toLowerCase_def toLowerChar_def)

theorem getValidatorStatusesBatch_fallback_witness:
  "post_validators example_api (map normalizePubkey [''0xaa'', ''0xbb'']) = Inl (Error ''timeout'')
   \<and> fst (getValidatorStatusesBatch example_api [''0xaa'', ''0xbb''])
       = Inr [\<lparr>bv_status = ''active_ongoing'', bv_pubkey = ''0xaa'',
                effective_balance = ''32000000000'', slashed = False\<rparr>]
   \<and> Log ''Error fetching status for 0xbb: timeout''
       \<in> set (snd (getValidatorStatusesBatch example_api [''0xaa'', ''0xbb'']))"
proof -
  have h: "post_validators example_api (map normalizePubkey [''0xaa'', ''0xbb''])
           = Inl (Error ''timeout'')"
    by (simp add: example_api_def)
  have g: "get_validator example_api (normalizePubkey ''0xbb'') = GetError None ''timeout''"
    by (simp add: example_api_def normalizePubkey_0xbb)
  have f: "found example_api [''0xaa'', ''0xbb'']
           = [\<lparr>bv_status = ''active_ongoing'', bv_pubkey = ''0xaa'',
                effective_balance = ''32000000000'', slashed = False\<rparr>]"
    by (simp add: found_def example_api_def normalizePubkey_0xaa normalizePubkey_0xbb)
  note t = getValidatorStatusesBatch_fallback
    [of example_api "[''0xaa'', ''0xbb'']" "Error ''timeout''"]
  from t h have eq: "fst (getValidatorStatusesBatch example_api [''0xaa'', ''0xbb''])
      = Inr (found example_api [''0xaa'', ''0xbb''])"
    by simp
  from t h have "\<forall>pk code msg.
      pk \<in> set [''0xaa'', ''0xbb'']
      \<and> get_validator example_api (normalizePubkey pk) = GetError code msg
      \<and> code \<noteq> Some 404 \<longrightarrow>
      Log (''Error fetching status for '' @ pk @ '': '' @ msg)
        \<in> set (snd (getValidatorStatusesBatch example_api [''0xaa'', ''0xbb'']))"
    by blast
  from this [rule_format, of "''0xbb''" None "''timeout''"] g
  have "Log ''Error fetching status for 0xbb: timeout''
        \<in> set (snd (getValidatorStatusesBatch example_api [''0xaa'', ''0xbb'']))"
    by simp
  with h eq f show ?thesis by simp
qed

section \<open>Properties of the sync orchestrator\<close>

lemma applied_keys_no_fault: "applied_keys (\<lambda>k. False) k pks = set pks"
  by (induction pks arbitrary: k) auto

lemma applied_keys_all: "(\<forall>j < length pks. \<not> fault (k + j)) \<Longrightarrow> applied_keys fault k pks = set pks"
proof (induction pks arbitrary: k)
  case Nil
  then show ?case by simp
next
  case (Cons pk pks)
  from Cons.prems have "\<not> fault k" by force
  moreover from Cons.prems have "\<forall>j < length pks. \<not> fault (Suc k + j)" by force
  ultimately show ?case using Cons.IH [of "Suc k"] by simp
qed


lemma run_updates_validators:
  "run_updates (update_validators now) ''inactive'' True fault statusMap k pks d
   = Some (d\<lparr>t_validators :=
         map (\<lambda>v. if pubkey v \<in> applied_keys fault k pks then set_validator now statusMap v else v)
           (t_validators d)\<rparr>)"
proof (induction pks arbitrary: k d)
  case Nil
  then show ?case by simp
next
  case (Cons pk pks)
  let ?d = "if fault k then d
            else update_validators now (or_default (statusMap pk) ''inactive'') pk d"
  have "run_updates (update_validators now) ''inactive'' True fault statusMap k (pk # pks) d
      = run_updates (update_validators now) ''inactive'' True fault statusMap (Suc k) pks ?d"
    by simp
  also have "\<dots> = Some (?d\<lparr>t_validators :=
         map (\<lambda>v. if pubkey v \<in> applied_keys fault (Suc k) pks
                  then set_validator now statusMap v else v) (t_validators ?d)\<rparr>)"
    by (rule Cons.IH)
  also have "\<dots> = Some (d\<lparr>t_validators :=
         map (\<lambda>v. if pubkey v \<in> applied_keys fault k (pk # pks)
                  then set_validator now statusMap v else v) (t_validators d)\<rparr>)"
    by (cases "fault k") (auto simp: update_validators_def set_validator_def)
  finally show ?case .
qed

lemma run_updates_exit:
  assumes "\<forall>j < length pks. \<not> fault (k + j)"
  shows "run_updates (update_exit_validators now) ''unknown'' False fault statusMap k pks d
   = Some (d\<lparr>t_exit_validators :=
         map (\<lambda>e. if e_pubkey e \<in> set pks then set_exit now statusMap e else e)
           (t_exit_validators d)\<rparr>)"
  using assms
proof (induction pks arbitrary: k d)
  case Nil
  then show ?case by simp
next
  case (Cons pk pks)
  from Cons.prems have nf: "\<not> fault k" by force
  from Cons.prems have rest: "\<forall>j < length pks. \<not> fault (Suc k + j)" by force
  let ?d = "update_exit_validators now (or_default (statusMap pk) ''unknown'') pk d"
  have "run_updates (update_exit_validators now) ''unknown'' False fault statusMap k (pk # pks) d
      = run_updates (update_exit_validators now) ''unknown'' False fault statusMap (Suc k) pks ?d"
    using nf by simp
  also have "\<dots> = Some (?d\<lparr>t_exit_validators :=
         map (\<lambda>e. if e_pubkey e \<in> set pks then set_exit now statusMap e else e)
           (t_exit_validators ?d)\<rparr>)"
    using rest by (rule Cons.IH)
  also have "\<dots> = Some (d\<lparr>t_exit_validators :=
         map (\<lambda>e. if e_pubkey e \<in> set (pk # pks) then set_exit now statusMap e else e)
           (t_exit_validators d)\<rparr>)"
    by (auto simp: update_exit_validators_def set_exit_def)
  finally show ?case .
qed


lemma dom_build_statusMap_aux:
  "dom (fold (\<lambda>st m. m(normalizePubkey (bv_pubkey st) \<mapsto> mapBeaconStatus (bv_status st))) xs m0)
   = dom m0 \<union> (\<lambda>st. normalizePubkey (bv_pubkey st)) ` set xs"
  by (induction xs arbitrary: m0) auto

lemma build_statusMap_absent:
  "pk \<notin> (\<lambda>st. normalizePubkey (bv_pubkey st)) ` set statuses \<Longrightarrow> build_statusMap statuses pk = None"
  using dom_build_statusMap_aux [of statuses Map.empty]
  by (auto simp: build_statusMap_def)

lemma getValidatorStatusesBatch_resolves:
  "\<exists>statuses. fst (getValidatorStatusesBatch api pks) = Inr statuses"
  by (simp add: getValidatorStatusesBatch_def fallback_loop_eq Let_def
      split: sum.splits option.splits)

lemma begin_transaction_closed:
  "saved c = None \<Longrightarrow> begin_transaction c = Some \<lparr>current = current c, saved = Some (current c)\<rparr>"
  by (cases c) (simp add: begin_transaction_def)

lemma conn_closed: "saved c = None \<Longrightarrow> \<lparr>current = current c, saved = None\<rparr> = c"
  by (cases c) simp

text \<open>The transaction of the validators sync, from a connection with no transaction open.\<close>

lemma chunk_transaction_validators:
  assumes "saved c = None"
  shows "chunk_transaction (update_validators now) ''inactive'' True f m keys c =
     (if finalize_fault f then Rejected (Error ''finalize failed'') c
      else if commit_fault f
      then Rejected (Error ''commit failed'')
             \<lparr>current = (current c)\<lparr>t_validators :=
                  map (\<lambda>v. if pubkey v \<in> applied_keys (run_fault f) 0 keys
                           then set_validator now m v else v) (t_validators (current c))\<rparr>,
              saved = Some (current c)\<rparr>
      else Resolved
             \<lparr>current = (current c)\<lparr>t_validators :=
                  map (\<lambda>v. if pubkey v \<in> applied_keys (run_fault f) 0 keys
                           then set_validator now m v else v) (t_validators (current c))\<rparr>,
              saved = None\<rparr>)"
  using assms
  by (simp add: chunk_transaction_def begin_transaction_closed run_updates_validators
      rollback_def commit_def conn_closed)

text \<open>The transaction of the exit-tracking sync, when no \<open>stmt.run\<close> fails.\<close>

lemma chunk_transaction_exit:
  assumes "saved c = None" "\<forall>k < length keys. \<not> run_fault f k"
  shows "chunk_transaction (update_exit_validators now) ''unknown'' False f m keys c =
     (if finalize_fault f then Rejected (Error ''finalize failed'') c
      else if commit_fault f
      then Rejected (Error ''commit failed'')
             \<lparr>current = (current c)\<lparr>t_exit_validators :=
                  map (\<lambda>e. if e_pubkey e \<in> set keys then set_exit now m e else e)
                    (t_exit_validators (current c))\<rparr>,
              saved = Some (current c)\<rparr>
      else Resolved
             \<lparr>current = (current c)\<lparr>t_exit_validators :=
                  map (\<lambda>e. if e_pubkey e \<in> set keys then set_exit now m e else e)
                    (t_exit_validators (current c))\<rparr>,
              saved = None\<rparr>)"
proof -
  from assms(2) have "\<forall>j < length keys. \<not> run_fault f (0 + j)" by simp
  from run_updates_exit [OF this] assms(1) show ?thesis
    by (simp add: chunk_transaction_def begin_transaction_closed rollback_def commit_def
        conn_closed)
qed


text \<open>With a transaction left open, \<open>BEGIN TRANSACTION\<close> fails and the process ends.\<close>

lemma chunk_transaction_open_dies:
  "saved c = Some d \<Longrightarrow> chunk_transaction upd dflt cb f m keys c = Died d"
  by (simp add: chunk_transaction_def begin_transaction_def crash_def)

lemma sync_chunk_eq:
  assumes "saved c = None"
    and "fst (getValidatorStatusesBatch api (map normalizePubkey batch)) = Inr statuses"
  shows "sync_chunk now f api batch c =
     (if finalize_fault f then Running c
      else Running
             \<lparr>current = (current c)\<lparr>t_validators :=
                  map (\<lambda>v. if pubkey v \<in> applied_keys (run_fault f) 0 (map normalizePubkey batch)
                           then set_validator now (build_statusMap statuses) v else v)
                    (t_validators (current c))\<rparr>,
              saved = (if commit_fault f then Some (current c) else None)\<rparr>)"
  using assms by (simp add: sync_chunk_def chunk_transaction_validators)

lemma sync_exit_chunk_eq:
  assumes "saved c = None"
    and "fst (getValidatorStatusesBatch api (map normalizePubkey batch)) = Inr statuses"
    and "\<forall>k < length batch. \<not> run_fault f k"
  shows "sync_exit_chunk now f api batch c =
     (if finalize_fault f then Running c
      else Running
             \<lparr>current = (current c)\<lparr>t_exit_validators :=
                  map (\<lambda>e. if e_pubkey e \<in> set (map normalizePubkey batch)
                           then set_exit now (build_statusMap statuses) e else e)
                    (t_exit_validators (current c))\<rparr>,
              saved = (if commit_fault f then Some (current c) else None)\<rparr>)"
  using assms by (simp add: sync_exit_chunk_def chunk_transaction_exit)




lemma sync_loop_step:
  "i < length validators \<Longrightarrow>
   sync_chunk (clock i) (faults_at i) api (slice validators i (i + 500)) c = Running c' \<Longrightarrow>
   sync_loop clock faults_at api validators i c
   = sync_loop clock faults_at api validators (i + 500) c'"
  by (simp add: sync_loop.simps [of clock faults_at api validators i c])






lemma sync_chunk_open_dies:
  "saved c = Some d \<Longrightarrow> sync_chunk now f api batch c = Crashed d"
  "saved c = Some d \<Longrightarrow> sync_exit_chunk now f api batch c = Crashed d"
  using getValidatorStatusesBatch_resolves [of api "map normalizePubkey batch"]
  by (auto simp: sync_chunk_def sync_exit_chunk_def chunk_transaction_open_dies)



text \<open>
  A \<open>COMMIT\<close> that fails rejects the promise of the chunk, which the loop catches:
  the transaction stays open, and the \<open>BEGIN TRANSACTION\<close> of the next chunk ends the
  process with the chunk undone.
\<close>

lemma sync_loop_commit_fault_dies:
  assumes "saved c = None" and "i + 500 < length validators"
    and "commit_fault (faults_at i)" and "\<not> finalize_fault (faults_at i)"
  shows "sync_loop clock faults_at api validators i c = Crashed (current c)"
proof -
  obtain statuses where r: "fst (getValidatorStatusesBatch api
      (map normalizePubkey (slice validators i (i + 500)))) = Inr statuses"
    using getValidatorStatusesBatch_resolves by blast
  from sync_chunk_eq [OF assms(1) r, of "clock i" "faults_at i"] assms(3,4)
  obtain c' where c': "sync_chunk (clock i) (faults_at i) api (slice validators i (i + 500)) c
      = Running c'" and s: "saved c' = Some (current c)"
    by simp
  from assms(2) have i: "i < length validators" by simp
  from sync_loop_step [where clock = clock and faults_at = faults_at, OF i c']
  have "sync_loop clock faults_at api validators i c
      = sync_loop clock faults_at api validators (i + 500) c'" .
  also from assms(2) sync_chunk_open_dies(1) [OF s]
  have "\<dots> = Crashed (current c)"
    by (simp add: sync_loop.simps [of clock faults_at api validators "i + 500" c'])
  finally show ?thesis .
qed


lemma example_response:
  "fst (getValidatorStatusesBatch example_bulk_api ks)
   = Inr [\<lparr>bv_status = ''active_ongoing'', bv_pubkey = ''0xaa'',
            effective_balance = ''32000000000'', slashed = False\<rparr>]"
  by (simp add: getValidatorStatusesBatch_def example_bulk_api_def)

lemma example_statusMap:
  "build_statusMap [\<lparr>bv_status = ''active_ongoing'', bv_pubkey = ''0xaa'',
            effective_balance = ''32000000000'', slashed = False\<rparr>]
   = [''0xaa'' \<mapsto> ''active'']"
  by (simp add: build_statusMap_def normalizePubkey_0xaa mapBeaconStatus_def)


text \<open>
  A fault of \<open>stmt.finalize\<close> on the same chunk: both handlers roll back and go on
  with the connection as it was.
\<close>

lemma finalize_fails_rolls_back:
  "sync_chunk 5 finalize_fails example_bulk_api [''0xaa'', ''0xbb''] example_conn
     = Running example_conn
   \<and> sync_exit_chunk 5 finalize_fails example_bulk_api [''0xaa'', ''0xbb''] example_conn
     = Running example_conn"
  by (simp add: sync_chunk_def sync_exit_chunk_def example_response example_statusMap
      chunk_transaction_def finalize_fails_def example_conn_def begin_transaction_def
      rollback_def update_validators_def update_exit_validators_def or_default_def
      normalizePubkey_0xaa normalizePubkey_0xbb)


text \<open>
  C2, as stated. In the validators sync the key \<open>0xbb\<close>, absent from the oracle
  response, gets the status \<open>inactive\<close>, not \<open>unknown\<close>.
\<close>

theorem sync_absent_counterexample:
  "fst (getValidatorStatusesBatch example_bulk_api (map normalizePubkey [''0xaa'', ''0xbb'']))
     = Inr [\<lparr>bv_status = ''active_ongoing'', bv_pubkey = ''0xaa'',
              effective_balance = ''32000000000'', slashed = False\<rparr>]
   \<and> map status (t_validators (db_after
        (sync_chunk 5 no_faults example_bulk_api [''0xaa'', ''0xbb''] example_conn)))
     = [''active'', ''inactive'']
   \<and> map pubkey (t_validators (db_after
        (sync_chunk 5 no_faults example_bulk_api [''0xaa'', ''0xbb''] example_conn)))
     = [''0xaa'', ''0xbb'']
   \<and> ''inactive'' \<noteq> ''unknown''"
  by (simp add: sync_chunk_def example_response example_statusMap chunk_transaction_def
      no_faults_def example_conn_def begin_transaction_def commit_def
      update_validators_def or_default_def normalizePubkey_0xaa normalizePubkey_0xbb)

text \<open>
  C2, amended. When a chunk is applied without storage fault on a connection with no
  transaction open, the chunk is committed, and every record of it whose stored key is
  normalized and absent from the oracle response has its status set to \<open>unknown\<close> by the
  exit-tracking sync, and to \<open>inactive\<close> by the validators sync; its \<open>updated_at\<close> is
  refreshed, and no row is added or removed.
\<close>

theorem sync_absent_status:
  assumes "saved c = None"
    and "fst (getValidatorStatusesBatch api (map normalizePubkey batch)) = Inr statuses"
    and "pk \<in> set batch" and "normalizePubkey pk = pk"
    and "pk \<notin> (\<lambda>st. normalizePubkey (bv_pubkey st)) ` set statuses"
  shows "\<exists>ce cv.
      sync_exit_chunk now no_faults api batch c = Running ce \<and> saved ce = None
    \<and> map e_pubkey (t_exit_validators (current ce)) = map e_pubkey (t_exit_validators (current c))
    \<and> (\<forall>e \<in> set (t_exit_validators (current ce)).
          e_pubkey e = pk \<longrightarrow> e_status e = ''unknown'' \<and> e_updated_at e = now)
    \<and> sync_chunk now no_faults api batch c = Running cv \<and> saved cv = None
    \<and> map pubkey (t_validators (current cv)) = map pubkey (t_validators (current c))
    \<and> (\<forall>v \<in> set (t_validators (current cv)).
          pubkey v = pk \<longrightarrow> status v = ''inactive'' \<and> updated_at v = now)"
proof -
  let ?m = "build_statusMap statuses"
  let ?keys = "map normalizePubkey batch"
  let ?ce = "\<lparr>current = (current c)\<lparr>t_exit_validators :=
                  map (\<lambda>e. if e_pubkey e \<in> set ?keys then set_exit now ?m e else e)
                    (t_exit_validators (current c))\<rparr>,
              saved = None\<rparr>"
  let ?cv = "\<lparr>current = (current c)\<lparr>t_validators :=
                  map (\<lambda>v. if pubkey v \<in> set ?keys then set_validator now ?m v else v)
                    (t_validators (current c))\<rparr>,
              saved = None\<rparr>"
  have nf: "\<not> finalize_fault no_faults" "\<not> commit_fault no_faults"
    "run_fault no_faults = (\<lambda>k. False)"
    by (simp_all add: no_faults_def)
  have m: "?m pk = None" using assms(5) by (rule build_statusMap_absent)
  have k: "pk \<in> set ?keys" using assms(3,4) by force
  have e: "sync_exit_chunk now no_faults api batch c = Running ?ce"
    using sync_exit_chunk_eq [OF assms(1,2), of no_faults now] by (simp add: nf)
  have v: "sync_chunk now no_faults api batch c = Running ?cv"
    using sync_chunk_eq [OF assms(1,2), of now no_faults]
    by (simp add: nf applied_keys_no_fault)
  have 1: "map e_pubkey (t_exit_validators (current ?ce))
           = map e_pubkey (t_exit_validators (current c))"
    by (simp add: set_exit_def)
  have 2: "\<forall>e \<in> set (t_exit_validators (current ?ce)).
          e_pubkey e = pk \<longrightarrow> e_status e = ''unknown'' \<and> e_updated_at e = now"
    using m k by (auto simp: set_exit_def or_default_def split: if_splits)
  have 3: "map pubkey (t_validators (current ?cv)) = map pubkey (t_validators (current c))"
    by (simp add: set_validator_def)
  have 4: "\<forall>v \<in> set (t_validators (current ?cv)).
          pubkey v = pk \<longrightarrow> status v = ''inactive'' \<and> updated_at v = now"
    using m k by (auto simp: set_validator_def or_default_def split: if_splits)
  have 5: "saved ?ce = None" "saved ?cv = None" by simp_all
  from e v 1 2 3 4 5 show ?thesis by blast
qed

text \<open>
  The statement at the example connection, where the oracle knows \<open>0xaa\<close> and not
  \<open>0xbb\<close>.
\<close>

theorem sync_absent_status_witness:
  "saved example_conn = None
   \<and> fst (getValidatorStatusesBatch example_bulk_api (map normalizePubkey [''0xaa'', ''0xbb'']))
     = Inr [\<lparr>bv_status = ''active_ongoing'', bv_pubkey = ''0xaa'',
              effective_balance = ''32000000000'', slashed = False\<rparr>]
   \<and> ''0xbb'' \<in> set [''0xaa'', ''0xbb''] \<and> normalizePubkey ''0xbb'' = ''0xbb''
   \<and> ''0xbb'' \<notin> (\<lambda>st. normalizePubkey (bv_pubkey st))
        ` set [\<lparr>bv_status = ''active_ongoing'', bv_pubkey = ''0xaa'',
                effective_balance = ''32000000000'', slashed = False\<rparr>]
   \<and> map e_pubkey (t_exit_validators (db_after
        (sync_exit_chunk 5 no_faults example_bulk_api [''0xaa'', ''0xbb''] example_conn)))
       = [''0xaa'', ''0xbb'']
   \<and> e_status (t_exit_validators (db_after
        (sync_exit_chunk 5 no_faults example_bulk_api [''0xaa'', ''0xbb''] example_conn)) ! 1)
       = ''unknown''
   \<and> map pubkey (t_validators (db_after
        (sync_chunk 5 no_faults example_bulk_api [''0xaa'', ''0xbb''] example_conn)))
       = [''0xaa'', ''0xbb'']
   \<and> status (t_validators (db_after
        (sync_chunk 5 no_faults example_bulk_api [''0xaa'', ''0xbb''] example_conn)) ! 1)
       = ''inactive''"
proof -
  let ?E = "t_exit_validators (db_after
        (sync_exit_chunk 5 no_faults example_bulk_api [''0xaa'', ''0xbb''] example_conn))"
  let ?V = "t_validators (db_after
        (sync_chunk 5 no_faults example_bulk_api [''0xaa'', ''0xbb''] example_conn))"
  have h: "saved example_conn = None" by (simp add: example_conn_def)
  have a: "fst (getValidatorStatusesBatch example_bulk_api
                 (map normalizePubkey [''0xaa'', ''0xbb'']))
     = Inr [\<lparr>bv_status = ''active_ongoing'', bv_pubkey = ''0xaa'',
              effective_balance = ''32000000000'', slashed = False\<rparr>]"
    by (rule example_response)
  have b: "''0xbb'' \<in> set [''0xaa'', ''0xbb'']" by simp
  have c: "normalizePubkey ''0xbb'' = ''0xbb''" by (rule normalizePubkey_0xbb)
  have d: "''0xbb'' \<notin> (\<lambda>st. normalizePubkey (bv_pubkey st))
        ` set [\<lparr>bv_status = ''active_ongoing'', bv_pubkey = ''0xaa'',
                effective_balance = ''32000000000'', slashed = False\<rparr>]"
    by (simp add: normalizePubkey_0xaa)
  from sync_absent_status [OF h a b c d, of 5] obtain ce cv where
    ce: "sync_exit_chunk 5 no_faults example_bulk_api [''0xaa'', ''0xbb''] example_conn
         = Running ce"
    and e0: "map e_pubkey (t_exit_validators (current ce))
         = map e_pubkey (t_exit_validators (current example_conn))"
    and e2: "\<forall>e \<in> set (t_exit_validators (current ce)).
          e_pubkey e = ''0xbb'' \<longrightarrow> e_status e = ''unknown'' \<and> e_updated_at e = 5"
    and cv: "sync_chunk 5 no_faults example_bulk_api [''0xaa'', ''0xbb''] example_conn
         = Running cv"
    and v0: "map pubkey (t_validators (current cv))
         = map pubkey (t_validators (current example_conn))"
    and v2: "\<forall>v \<in> set (t_validators (current cv)).
          pubkey v = ''0xbb'' \<longrightarrow> status v = ''inactive'' \<and> updated_at v = 5"
    by blast
  from ce e0 have e: "map e_pubkey ?E = [''0xaa'', ''0xbb'']"
    by (simp add: example_conn_def)
  from cv v0 have v: "map pubkey ?V = [''0xaa'', ''0xbb'']"
    by (simp add: example_conn_def)
  from e have e1: "?E ! 1 \<in> set ?E" "e_pubkey (?E ! 1) = ''0xbb''"
    by (auto simp: map_eq_Cons_conv)
  from v have v1: "?V ! 1 \<in> set ?V" "pubkey (?V ! 1) = ''0xbb''"
    by (auto simp: map_eq_Cons_conv)
  from e2 e1 ce have es: "e_status (?E ! 1) = ''unknown''" by simp
  from v2 v1 cv have vs: "status (?V ! 1) = ''inactive''" by simp
  from h a b c d e v es vs show ?thesis by blast
qed

section \<open>Properties of the aggregation engine\<close>

lemma exit_aggregate_bounded: "bounded (exit_aggregate es)"
  by (induction es) (auto simp: bounded_def exit_aggregate_def count_where_def)

lemma exit_aggregate_conserved:
  "(\<forall>e. Some e \<in> set es \<longrightarrow> e_status e \<in> four_statuses) \<Longrightarrow> conserved (exit_aggregate es)"
proof (induction es)
  case Nil
  then show ?case by (simp add: conserved_def exit_aggregate_def count_where_def)
next
  case (Cons a es)
  then have ih: "conserved (exit_aggregate es)" by simp
  show ?case
  proof (cases a)
    case None
    with ih show ?thesis by (simp add: conserved_def exit_aggregate_def count_where_def)
  next
    case (Some e)
    with Cons.prems have "e_status e \<in> four_statuses" by simp
    with ih Some show ?thesis
      by (auto simp: conserved_def exit_aggregate_def count_where_def four_statuses_def)
  qed
qed

lemma exit_totals_bounded: "bounded (exit_totals rows)"
  by (induction rows) (auto simp: bounded_def exit_totals_def count_where_def)

lemma exit_totals_conserved:
  "(\<forall>e \<in> set rows. e_status e \<in> four_statuses) \<Longrightarrow> conserved (exit_totals rows)"
  by (induction rows)
     (auto simp: conserved_def exit_totals_def count_where_def four_statuses_def)

lemma left_join_fst: "r \<in> set (left_join on xs ys) \<Longrightarrow> fst r \<in> set xs"
  by (auto simp: left_join_def split: if_splits)

lemma left_join_snd: "(x, Some y) \<in> set (left_join on xs ys) \<Longrightarrow> y \<in> set ys"
  by (auto simp: left_join_def split: if_splits)

lemma group_by_subset: "(k, g) \<in> set (group_by key rows) \<Longrightarrow> set g \<subseteq> set rows"
  by (auto simp: group_by_def)

lemma fold_upd_lookup:
  "fold (\<lambda>row m. m(fst row \<mapsto> snd row)) rows m0 k = Some v
   \<Longrightarrow> (k, v) \<in> set rows \<or> m0 k = Some v"
  by (induction rows arbitrary: m0) (fastforce split: if_splits)+

lemma fold_detail_lookup:
  "fold (\<lambda>batch m. m(row_id batch \<mapsto> F (row_id batch))) rows m0 bid = Some det
   \<Longrightarrow> det = F bid \<or> m0 bid = Some det"
  by (induction rows arbitrary: m0) (fastforce split: if_splits)+

lemma bucket_upd_lookup:
  "bucket_upd row m prov = Some inner \<Longrightarrow> inner b = Some g
   \<Longrightarrow> row = (prov, b, g) \<or> (\<exists>inner0. m prov = Some inner0 \<and> inner0 b = Some g)"
  by (cases row) (auto simp: bucket_upd_def Let_def split: if_splits option.splits)

lemma fold_bucket_lookup:
  "fold bucket_upd rows m0 prov = Some inner \<Longrightarrow> inner b = Some g
   \<Longrightarrow> (prov, b, g) \<in> set rows \<or> (\<exists>inner0. m0 prov = Some inner0 \<and> inner0 b = Some g)"
proof (induction rows arbitrary: m0)
  case Nil
  then show ?case by simp
next
  case (Cons row rows)
  from Cons.prems have "fold bucket_upd rows (bucket_upd row m0) prov = Some inner" by simp
  from Cons.IH [OF this Cons.prems(2)]
  show ?case
  proof
    assume "(prov, b, g) \<in> set rows"
    then show ?thesis by simp
  next
    assume "\<exists>inner0. bucket_upd row m0 prov = Some inner0 \<and> inner0 b = Some g"
    then obtain inner0 where "bucket_upd row m0 prov = Some inner0" "inner0 b = Some g"
      by blast
    from bucket_upd_lookup [OF this] show ?thesis by auto
  qed
qed

lemma exit_byBucket_fold: "exit_byBucket d bid = fold bucket_upd (byBucket_query d bid) Map.empty"
  by (simp add: exit_byBucket_def)

lemma byProvider_query_rows:
  assumes "(label, g) \<in> set (byProvider_query d bid)"
  shows "\<exists>es. g = exit_aggregate es \<and> (\<forall>e. Some e \<in> set es \<longrightarrow> e \<in> set (t_exit_validators d))"
proof -
  from assms obtain k grp where
    grp: "(k, grp) \<in> set (group_by (\<lambda>r. map_option provider (snd r))
          (filter (\<lambda>r. batch_id (fst r) = bid)
             (left_join (\<lambda>e v. e_pubkey e = pubkey v) (t_exit_validators d) (t_validators d))))"
    and g: "g = exit_aggregate (map (\<lambda>r. Some (fst r)) grp)"
    by (auto simp: byProvider_query_def)
  from group_by_subset [OF grp] have "\<forall>r \<in> set grp. fst r \<in> set (t_exit_validators d)"
    by (auto dest: left_join_fst)
  then have "\<forall>e. Some e \<in> set (map (\<lambda>r. Some (fst r)) grp) \<longrightarrow> e \<in> set (t_exit_validators d)"
    by auto
  with g show ?thesis by blast
qed

lemma byBucket_query_rows:
  assumes "(prov, b, g) \<in> set (byBucket_query d bid)"
  shows "\<exists>es. g = exit_aggregate es \<and> (\<forall>e. Some e \<in> set es \<longrightarrow> e \<in> set (t_exit_validators d))"
proof -
  from assms obtain k grp where
    grp: "(k, grp) \<in> set (group_by (\<lambda>r. (map_option provider (snd r), Option.bind (snd r) bucket_no))
          (filter (\<lambda>r. batch_id (fst r) = bid \<and> map_option provider (snd r) \<noteq> None
                       \<and> Option.bind (snd r) bucket_no \<noteq> None)
             (left_join (\<lambda>e v. e_pubkey e = pubkey v) (t_exit_validators d) (t_validators d))))"
    and g: "g = exit_aggregate (map (\<lambda>r. Some (fst r)) grp)"
    by (auto simp: byBucket_query_def)
  from group_by_subset [OF grp] have "\<forall>r \<in> set grp. fst r \<in> set (t_exit_validators d)"
    by (auto dest: left_join_fst)
  then have "\<forall>e. Some e \<in> set (map (\<lambda>r. Some (fst r)) grp) \<longrightarrow> e \<in> set (t_exit_validators d)"
    by auto
  with g show ?thesis by blast
qed

lemma byBatch_query_rows:
  assumes "r \<in> set (byBatch_query d)"
  shows "\<exists>es. counts.truncate r = exit_aggregate es
              \<and> (\<forall>e. Some e \<in> set es \<longrightarrow> e \<in> set (t_exit_validators d))"
proof -
  let ?es = "\<lambda>b::exit_batch. map snd (left_join (\<lambda>b e. b_id b = batch_id e) [b] (t_exit_validators d))"
  let ?row = "\<lambda>b::exit_batch. counts.extend (exit_aggregate (?es b))
      \<lparr>row_id = b_id b, row_filename = filename b, row_uploaded_at = uploaded_at b\<rparr>"
  from assms have "r \<in> ?row ` set (t_exit_batches d)"
    by (simp add: byBatch_query_def)
  then obtain b where r: "r = ?row b" by blast
  have "\<forall>e. Some e \<in> set (?es b) \<longrightarrow> e \<in> set (t_exit_validators d)"
    by (auto dest: left_join_snd)
  moreover have "counts.truncate r = exit_aggregate (?es b)"
    unfolding r by (simp add: counts.truncate_def counts.extend_def)
  ultimately show ?thesis by blast
qed

lemma exit_groupings_rows:
  assumes "g \<in> exit_groupings (exit_statistics d)"
  shows "g = exit_totals (t_exit_validators d)
     \<or> (\<exists>es. g = exit_aggregate es \<and> (\<forall>e. Some e \<in> set es \<longrightarrow> e \<in> set (t_exit_validators d)))"
proof -
  from assms consider
    (totals) "g = exit_totals (t_exit_validators d)"
  | (batch) r where "r \<in> set (byBatch_query d)" "g = counts.truncate r"
  | (prov) bid det label where "es_byBatchDetail (exit_statistics d) bid = Some det"
      "byProvider det label = Some g"
  | (bucket) bid det prov inner b where "es_byBatchDetail (exit_statistics d) bid = Some det"
      "byBucket det prov = Some inner" "inner b = Some g"
    by (auto simp: exit_groupings_def exit_statistics_def)
  then show ?thesis
  proof cases
    case totals
    then show ?thesis by simp
  next
    case batch
    then show ?thesis using byBatch_query_rows by blast
  next
    case prov
    from prov(1) have "det = \<lparr>byProvider = exit_byProvider d bid, byBucket = exit_byBucket d bid\<rparr>"
      by (auto simp: exit_statistics_def dest: fold_detail_lookup)
    with prov(2) have "exit_byProvider d bid label = Some g" by simp
    then have "(label, g) \<in> set (byProvider_query d bid)"
      by (auto simp: exit_byProvider_def dest: fold_upd_lookup)
    then show ?thesis using byProvider_query_rows by blast
  next
    case bucket
    from bucket(1) have "det = \<lparr>byProvider = exit_byProvider d bid, byBucket = exit_byBucket d bid\<rparr>"
      by (auto simp: exit_statistics_def dest: fold_detail_lookup)
    with bucket(2) have "fold bucket_upd (byBucket_query d bid) Map.empty prov = Some inner"
      by (simp add: exit_byBucket_fold)
    from fold_bucket_lookup [OF this bucket(3)]
    have "(prov, b, g) \<in> set (byBucket_query d bid)" by simp
    then show ?thesis using byBucket_query_rows by blast
  qed
qed

lemma exit_groupings_bounded: "g \<in> exit_groupings (exit_statistics d) \<Longrightarrow> bounded g"
  using exit_groupings_rows [of g d] exit_totals_bounded exit_aggregate_bounded by auto

lemma exit_groupings_conserved:
  assumes "\<forall>e \<in> set (t_exit_validators d). e_status e \<in> four_statuses"
    and "g \<in> exit_groupings (exit_statistics d)"
  shows "conserved g"
  using exit_groupings_rows [OF assms(2)] assms(1)
  by (auto intro: exit_totals_conserved exit_aggregate_conserved)

lemma statistics_totals_bounded: "bounded (statistics_totals vs)"
  by (induction vs) (auto simp: bounded_def statistics_totals_def count_where_def)

lemma statistics_totals_conserved:
  "(\<forall>v \<in> set vs. status v \<in> three_statuses) \<Longrightarrow> conserved (statistics_totals vs)"
  by (induction vs)
     (auto simp: conserved_def statistics_totals_def count_where_def three_statuses_def)

lemma add_count_total:
  "st \<noteq> ''total'' \<Longrightarrow> get_count (add_count st n obj) ''total'' = get_count obj ''total'' + n"
  by (simp add: add_count_def get_count_def Let_def)

lemma add_count_other:
  "k \<noteq> st \<Longrightarrow> k \<noteq> ''total'' \<Longrightarrow> get_count (add_count st n obj) k = get_count obj k"
  by (simp add: add_count_def get_count_def Let_def)

lemma add_count_same:
  "st \<noteq> ''total'' \<Longrightarrow> get_count (add_count st n obj) st = n"
  by (simp add: add_count_def get_count_def Let_def)

lemma add_count_sum4:
  assumes "st \<in> four_statuses" "get_count obj st = 0"
  shows "sum4 (add_count st n obj) = sum4 obj + n"
proof -
  from assms(1) have nt: "st \<noteq> ''total''" by (auto simp: four_statuses_def)
  from assms(1) consider "st = ''active''" | "st = ''exit_queue''" | "st = ''inactive''"
    | "st = ''pending''"
    by (auto simp: four_statuses_def)
  then show ?thesis
    using assms(2)
    by cases (simp_all add: sum4_def add_count_same add_count_other)
qed

lemma fold_add_count:
  assumes "distinct (map fst sns)" "fst ` set sns \<subseteq> four_statuses"
    "\<forall>s \<in> fst ` set sns. get_count obj s = 0"
  shows "get_count (fold (\<lambda>sn. add_count (fst sn) (snd sn)) sns obj) ''total''
           = get_count obj ''total'' + sum_list (map snd sns)
       \<and> sum4 (fold (\<lambda>sn. add_count (fst sn) (snd sn)) sns obj)
           = sum4 obj + sum_list (map snd sns)"
  using assms
proof (induction sns arbitrary: obj)
  case Nil
  then show ?case by simp
next
  case (Cons sn sns)
  let ?obj = "add_count (fst sn) (snd sn) obj"
  from Cons.prems have in4: "fst sn \<in> four_statuses" and zero: "get_count obj (fst sn) = 0"
    by auto
  from in4 have nt: "fst sn \<noteq> ''total''" by (auto simp: four_statuses_def)
  have rest: "\<forall>s \<in> fst ` set sns. get_count ?obj s = 0"
  proof
    fix s assume s: "s \<in> fst ` set sns"
    from Cons.prems(1) have "fst sn \<notin> fst ` set sns" by simp
    with s have "s \<noteq> fst sn" by blast
    moreover from s Cons.prems(2) have "s \<noteq> ''total''" by (auto simp: four_statuses_def)
    moreover from s Cons.prems(3) have "get_count obj s = 0" by auto
    ultimately show "get_count ?obj s = 0" by (simp add: add_count_other)
  qed
  from Cons.prems have "distinct (map fst sns)" "fst ` set sns \<subseteq> four_statuses" by auto
  from Cons.IH [OF this rest]
  show ?case
    by (simp add: add_count_total [OF nt] add_count_sum4 [OF in4 zero])
qed

lemma init_counts_zero: "get_count init_counts k = 0"
  by (simp add: init_counts_def get_count_def)

lemma fold_add_count_init:
  assumes "distinct (map fst sns)" "fst ` set sns \<subseteq> four_statuses"
  shows "object_conserved (fold (\<lambda>sn. add_count (fst sn) (snd sn)) sns init_counts)"
  using fold_add_count [OF assms, of init_counts]
  by (simp add: object_conserved_def init_counts_zero sum4_def)

lemma format_stat_lookup:
  "format_stat row fm prov =
     (if fst row = prov
      then (case fm prov of None \<Rightarrow> None
            | Some obj \<Rightarrow> Some (add_count (fst (snd row)) (snd (snd row)) obj))
      else fm prov)"
  by (simp add: format_stat_def split: option.splits)

lemma fold_format_stat:
  "fold format_stat rows fm prov =
     (case fm prov of None \<Rightarrow> None
      | Some obj \<Rightarrow>
          Some (fold (\<lambda>sn. add_count (fst sn) (snd sn))
                  (map snd (filter (\<lambda>r. fst r = prov) rows)) obj))"
  by (induction rows arbitrary: fm) (simp_all add: format_stat_lookup split: option.splits)

lemma bucket_stat_lookup:
  "lookup2 (bucket_stat row bm) prov b =
     (if fst row = prov \<and> fst (snd row) = b
      then Some (add_count (fst (snd (snd row))) (snd (snd (snd row)))
                   (case lookup2 bm prov b of None \<Rightarrow> init_counts | Some obj \<Rightarrow> obj))
      else lookup2 bm prov b)"
  by (auto simp: bucket_stat_def lookup2_def Let_def split: option.splits)

lemma fold_bucket_stat:
  "lookup2 (fold bucket_stat rows bm) prov b =
     (if filter (\<lambda>r. fst r = prov \<and> fst (snd r) = b) rows = [] then lookup2 bm prov b
      else Some (fold (\<lambda>sn. add_count (fst sn) (snd sn))
                   (map (\<lambda>r. snd (snd r)) (filter (\<lambda>r. fst r = prov \<and> fst (snd r) = b) rows))
                   (case lookup2 bm prov b of None \<Rightarrow> init_counts | Some obj \<Rightarrow> obj)))"
  by (induction rows arbitrary: bm) (simp_all add: bucket_stat_lookup)

lemma distinct_map_filter:
  assumes "distinct ks"
    and "\<And>k k'. k \<in> set ks \<Longrightarrow> k' \<in> set ks \<Longrightarrow> Q k \<Longrightarrow> Q k' \<Longrightarrow> f k = f k' \<Longrightarrow> k = k'"
  shows "distinct (map f (filter Q ks))"
  using assms by (auto simp: distinct_map inj_on_def)

lemma stats_query_rows:
  "map snd (filter (\<lambda>r. fst r = prov) (stats_query vs))
   = map (\<lambda>k. (snd k, length (filter (\<lambda>v. (provider v, status v) = k) vs)))
       (filter (\<lambda>k. fst k = prov) (sort (remdups (map (\<lambda>v. (provider v, status v)) vs))))"
  by (simp add: stats_query_def group_by_def filter_map comp_def)

lemma count_where_length: "count_where P xs = length (filter P xs)"
  by (induction xs) (simp_all add: count_where_def)

lemma sum_list_indicator:
  "distinct ks \<Longrightarrow> sum_list (map (\<lambda>k. if x = k then (1::nat) else 0) ks) = (if x \<in> set ks then 1 else 0)"
  by (induction ks) auto

lemma group_sum:
  assumes "distinct ks"
  shows "sum_list (map (\<lambda>k. length (filter (\<lambda>r. key r = k) rows)) ks)
         = length (filter (\<lambda>r. key r \<in> set ks) rows)"
proof (induction rows)
  case Nil
  then show ?case by simp
next
  case (Cons r rows)
  have "sum_list (map (\<lambda>k. length (filter (\<lambda>r. key r = k) (r # rows))) ks)
      = sum_list (map (\<lambda>k. (if key r = k then 1 else 0)
                            + length (filter (\<lambda>r. key r = k) rows)) ks)"
    by (rule arg_cong [where f = sum_list]) simp
  also have "\<dots> = sum_list (map (\<lambda>k. if key r = k then 1 else 0) ks)
                  + sum_list (map (\<lambda>k. length (filter (\<lambda>r. key r = k) rows)) ks)"
    by (simp add: sum_list_addf)
  also have "\<dots> = (if key r \<in> set ks then 1 else 0)
                  + length (filter (\<lambda>r. key r \<in> set ks) rows)"
    by (simp only: sum_list_indicator [OF assms] Cons.IH)
  finally show ?case by simp
qed

lemma byProvider_conserved:
  assumes "\<forall>v \<in> set vs. status v \<in> four_statuses"
    and "statistics_byProvider vs prov = Some obj"
  shows "object_conserved obj
     \<and> get_count obj ''total'' = count_where (\<lambda>v. provider v = prov) vs"
proof -
  let ?key = "\<lambda>v::validator. (provider v, status v)"
  let ?ks = "filter (\<lambda>k. fst k = prov) (sort (remdups (map ?key vs)))"
  let ?sns = "map (\<lambda>k. (snd k, length (filter (\<lambda>v. ?key v = k) vs))) ?ks"
  from assms(2) obtain obj0 where init: "formatted_init prov = Some obj0"
    and obj: "obj = fold (\<lambda>sn. add_count (fst sn) (snd sn)) ?sns obj0"
    by (auto simp: statistics_byProvider_def fold_format_stat stats_query_rows
        split: option.splits)
  from init have obj0: "obj0 = init_counts"
    by (auto simp: formatted_init_def split: if_splits)
  have dk: "distinct ?ks" by simp
  have "distinct (map snd ?ks)"
    by (rule distinct_map_filter) (auto simp: prod_eq_iff)
  then have d: "distinct (map fst ?sns)" by (simp add: comp_def)
  have sub: "fst ` set ?sns \<subseteq> four_statuses"
    using assms(1) by auto
  have zero: "\<forall>s \<in> fst ` set ?sns. get_count init_counts s = 0"
    by (simp add: init_counts_zero)
  have "sum_list (map snd ?sns) = sum_list (map (\<lambda>k. length (filter (\<lambda>v. ?key v = k) vs)) ?ks)"
    by (simp add: comp_def)
  also have "\<dots> = length (filter (\<lambda>v. ?key v \<in> set ?ks) vs)"
    using dk by (rule group_sum)
  also have "\<dots> = length (filter (\<lambda>v. provider v = prov) vs)"
    by (rule arg_cong [where f = length], rule filter_cong) auto
  finally have "sum_list (map snd ?sns) = count_where (\<lambda>v. provider v = prov) vs"
    by (simp add: count_where_length)
  with fold_add_count [OF d sub zero] fold_add_count_init [OF d sub]
  show ?thesis unfolding obj obj0 by (simp add: init_counts_zero)
qed

lemma lookup2_empty: "lookup2 Map.empty a b = None"
  by (simp add: lookup2_def)

lemma bucketStats_query_rows:
  "map (\<lambda>r. snd (snd r)) (filter (\<lambda>r. fst r = prov \<and> fst (snd r) = b) (bucketStats_query vs))
   = map (\<lambda>k. (snd (snd k), length (filter (\<lambda>r. r = k) (concat (map (\<lambda>v. case bucket_no v of
                               None \<Rightarrow> []
                             | Some b \<Rightarrow>
                                 if provider v \<in> {''Lido'', ''Etherfi'', ''Mantle''}
                                 then [(provider v, b, status v)] else []) vs)))))
       (filter (\<lambda>k. fst k = prov \<and> fst (snd k) = b)
          (sort (remdups (map (\<lambda>r. r) (concat (map (\<lambda>v. case bucket_no v of
                               None \<Rightarrow> []
                             | Some b \<Rightarrow>
                                 if provider v \<in> {''Lido'', ''Etherfi'', ''Mantle''}
                                 then [(provider v, b, status v)] else []) vs))))))"
  by (simp add: bucketStats_query_def group_by_def filter_map comp_def)

lemma bucket_rows_count:
  assumes "prov \<in> {''Lido'', ''Etherfi'', ''Mantle''}"
  shows "length (filter (\<lambda>r. fst r = prov \<and> fst (snd r) = b)
           (concat (map (\<lambda>v. case bucket_no v of
                               None \<Rightarrow> []
                             | Some b \<Rightarrow>
                                 if provider v \<in> {''Lido'', ''Etherfi'', ''Mantle''}
                                 then [(provider v, b, status v)] else []) vs)))
         = count_where (\<lambda>v. provider v = prov \<and> bucket_no v = Some b) vs"
  using assms by (induction vs) (auto simp: count_where_def split: option.splits)

lemma byBucket_conserved:
  assumes "\<forall>v \<in> set vs. status v \<in> four_statuses"
    and "statistics_byBucket vs prov = Some inner" and "inner b = Some obj"
  shows "object_conserved obj
     \<and> get_count obj ''total'' = count_where (\<lambda>v. provider v = prov \<and> bucket_no v = Some b) vs"
proof -
  let ?rows = "concat (map (\<lambda>v. case bucket_no v of
                               None \<Rightarrow> []
                             | Some b \<Rightarrow>
                                 if provider v \<in> {''Lido'', ''Etherfi'', ''Mantle''}
                                 then [(provider v, b, status v)] else []) vs)"
  let ?ks = "filter (\<lambda>k. fst k = prov \<and> fst (snd k) = b) (sort (remdups (map (\<lambda>r. r) ?rows)))"
  let ?sns = "map (\<lambda>k. (snd (snd k), length (filter (\<lambda>r. r = k) ?rows))) ?ks"
  from assms(2,3) have l: "lookup2 (fold bucket_stat (bucketStats_query vs) Map.empty) prov b
      = Some obj"
    by (simp add: statistics_byBucket_def lookup2_def)
  then have obj: "obj = fold (\<lambda>sn. add_count (fst sn) (snd sn)) ?sns init_counts"
    by (simp add: fold_bucket_stat bucketStats_query_rows lookup2_empty split: if_splits)
  from l have "?ks \<noteq> []"
    by (auto simp: fold_bucket_stat bucketStats_query_def group_by_def filter_map comp_def
        lookup2_empty split: if_splits)
  then have "hd ?ks \<in> set ?ks" by (rule hd_in_set)
  then obtain k where "k \<in> set ?ks" ..
  then have "k \<in> set ?rows" "fst k = prov" by auto
  then have prov: "prov \<in> {''Lido'', ''Etherfi'', ''Mantle''}"
    by (auto split: option.splits if_splits)
  have dk: "distinct ?ks" by simp
  have "distinct (map (\<lambda>k. snd (snd k)) ?ks)"
    by (rule distinct_map_filter) (auto simp: prod_eq_iff)
  then have d: "distinct (map fst ?sns)" by (simp add: comp_def)
  have "\<forall>k \<in> set ?rows. snd (snd k) \<in> four_statuses"
    using assms(1) by (auto split: option.splits if_splits)
  then have sub: "fst ` set ?sns \<subseteq> four_statuses" by auto
  have zero: "\<forall>s \<in> fst ` set ?sns. get_count init_counts s = 0"
    by (simp add: init_counts_zero)
  have "sum_list (map snd ?sns) = sum_list (map (\<lambda>k. length (filter (\<lambda>r. r = k) ?rows)) ?ks)"
    by (simp add: comp_def)
  also have "\<dots> = length (filter (\<lambda>r. r \<in> set ?ks) ?rows)"
    using dk by (rule group_sum [where key = "\<lambda>r. r"])
  also have "\<dots> = length (filter (\<lambda>r. fst r = prov \<and> fst (snd r) = b) ?rows)"
    by (rule arg_cong [where f = length], rule filter_cong) auto
  also have "\<dots> = count_where (\<lambda>v. provider v = prov \<and> bucket_no v = Some b) vs"
    using prov by (rule bucket_rows_count)
  finally have "sum_list (map snd ?sns)
      = count_where (\<lambda>v. provider v = prov \<and> bucket_no v = Some b) vs" .
  with fold_add_count [OF d sub zero] fold_add_count_init [OF d sub]
  show ?thesis unfolding obj by (simp add: init_counts_zero)
qed

lemma statistics_byProvider_Lido: "\<exists>obj. statistics_byProvider vs ''Lido'' = Some obj"
  by (simp add: statistics_byProvider_def fold_format_stat formatted_init_def)

text \<open>
  C1, amended. In \<open>GET /api/statistics\<close> the overall total is the number of validator
  records, the three status counts never exceed it, and they add up to it when every
  record is \<open>active\<close>, \<open>exit_queue\<close> or \<open>inactive\<close> (pending records are in the
  total and in none of the three counts). When every validator record has one of the four
  statuses \<open>active\<close>, \<open>exit_queue\<close>, \<open>inactive\<close>, \<open>pending\<close>, every per-provider and
  every per-(provider, bucket) object has the number of its records as total, and its four
  counts add up to it. In \<open>GET /api/exit-statistics\<close>, where pending records count as
  inactive, the three counts of every grouping never exceed its total, and they add up to it,
  in all groupings at once, when every exit-tracking record has one of the four statuses
  (a record with status \<open>unknown\<close> is in the total and in no count).
\<close>

theorem statistics_conservation:
  "total (st_totals (statistics d)) = length (t_validators d)
   \<and> bounded (st_totals (statistics d))
   \<and> ((\<forall>v \<in> set (t_validators d). status v \<in> three_statuses)
        \<longrightarrow> conserved (st_totals (statistics d)))
   \<and> ((\<forall>v \<in> set (t_validators d). status v \<in> four_statuses) \<longrightarrow>
        (\<forall>prov obj. st_byProvider (statistics d) prov = Some obj \<longrightarrow>
           object_conserved obj
           \<and> get_count obj ''total'' = count_where (\<lambda>v. provider v = prov) (t_validators d))
        \<and> (\<forall>prov inner b obj.
             st_byBucket (statistics d) prov = Some inner \<and> inner b = Some obj \<longrightarrow>
             object_conserved obj
             \<and> get_count obj ''total''
                 = count_where (\<lambda>v. provider v = prov \<and> bucket_no v = Some b) (t_validators d)))
   \<and> total (es_totals (exit_statistics d)) = length (t_exit_validators d)
   \<and> (\<forall>g \<in> exit_groupings (exit_statistics d). bounded g)
   \<and> ((\<forall>e \<in> set (t_exit_validators d). e_status e \<in> four_statuses)
        \<longrightarrow> (\<forall>g \<in> exit_groupings (exit_statistics d). conserved g))"
proof -
  have 1: "total (st_totals (statistics d)) = length (t_validators d)"
    by (simp add: statistics_def statistics_totals_def)
  have 2: "bounded (st_totals (statistics d))"
    by (simp add: statistics_def statistics_totals_bounded)
  have 3: "(\<forall>v \<in> set (t_validators d). status v \<in> three_statuses)
        \<longrightarrow> conserved (st_totals (statistics d))"
    by (simp add: statistics_def statistics_totals_conserved)
  have 4: "(\<forall>v \<in> set (t_validators d). status v \<in> four_statuses) \<longrightarrow>
        (\<forall>prov obj. st_byProvider (statistics d) prov = Some obj \<longrightarrow>
           object_conserved obj
           \<and> get_count obj ''total'' = count_where (\<lambda>v. provider v = prov) (t_validators d))"
    using byProvider_conserved [of "t_validators d"] by (simp add: statistics_def)
  have 5: "(\<forall>v \<in> set (t_validators d). status v \<in> four_statuses) \<longrightarrow>
        (\<forall>prov inner b obj.
             st_byBucket (statistics d) prov = Some inner \<and> inner b = Some obj \<longrightarrow>
             object_conserved obj
             \<and> get_count obj ''total''
                 = count_where (\<lambda>v. provider v = prov \<and> bucket_no v = Some b) (t_validators d))"
    using byBucket_conserved [of "t_validators d"] by (simp add: statistics_def) blast
  have 6: "total (es_totals (exit_statistics d)) = length (t_exit_validators d)"
    by (simp add: exit_statistics_def exit_totals_def)
  have 7: "\<forall>g \<in> exit_groupings (exit_statistics d). bounded g"
    using exit_groupings_bounded by blast
  have 8: "(\<forall>e \<in> set (t_exit_validators d). e_status e \<in> four_statuses)
        \<longrightarrow> (\<forall>g \<in> exit_groupings (exit_statistics d). conserved g)"
    using exit_groupings_conserved by blast
  from 1 2 3 4 5 6 7 8 show ?thesis by blast
qed

theorem statistics_conservation_witness:
  "list_all (\<lambda>v. status v \<in> three_statuses) (t_validators example_synced_db)
   \<and> list_all (\<lambda>e. e_status e \<in> four_statuses) (t_exit_validators example_synced_db)
   \<and> conserved (st_totals (statistics example_synced_db))
   \<and> conserved (es_totals (exit_statistics example_synced_db))
   \<and> (\<exists>obj. st_byProvider (statistics example_synced_db) ''Lido'' = Some obj
          \<and> object_conserved obj \<and> get_count obj ''total'' = 2)"
proof -
  note t = statistics_conservation [of example_synced_db]
  have h3: "\<forall>v \<in> set (t_validators example_synced_db). status v \<in> three_statuses"
    by (simp add: example_synced_db_def three_statuses_def)
  have h4: "\<forall>v \<in> set (t_validators example_synced_db). status v \<in> four_statuses"
    by (simp add: example_synced_db_def four_statuses_def)
  have he: "\<forall>e \<in> set (t_exit_validators example_synced_db). e_status e \<in> four_statuses"
    by (simp add: example_synced_db_def four_statuses_def)
  from t h3 have a: "conserved (st_totals (statistics example_synced_db))" by blast
  have "es_totals (exit_statistics example_synced_db)
        \<in> exit_groupings (exit_statistics example_synced_db)"
    by (simp add: exit_groupings_def)
  with t he have b: "conserved (es_totals (exit_statistics example_synced_db))" by blast
  obtain obj where o: "st_byProvider (statistics example_synced_db) ''Lido'' = Some obj"
    using statistics_byProvider_Lido [of "t_validators example_synced_db"]
    by (auto simp: statistics_def)
  with t h4 have "object_conserved obj
     \<and> get_count obj ''total''
       = count_where (\<lambda>v. provider v = ''Lido'') (t_validators example_synced_db)"
    by blast
  then have c: "object_conserved obj \<and> get_count obj ''total'' = 2"
    by (simp add: count_where_def example_synced_db_def)
  from h3 he a b o c show ?thesis by (auto simp: list_all_iff)
qed

text \<open>
  C1, as stated. With two validators just ingested, both \<open>pending\<close>, the overall totals of
  \<open>GET /api/statistics\<close> are total 2, active 0, exit_queue 0, inactive 0, and no pending
  count is reported there: the counts do not add up to the total.
\<close>

theorem statistics_conservation_counterexample:
  "st_totals (statistics (current example_conn))
     = \<lparr>total = 2, active = 0, exit_queue = 0, inactive = 0\<rparr>
   \<and> \<not> conserved (st_totals (statistics (current example_conn)))
   \<and> map status (t_validators (current example_conn)) = [''pending'', ''pending'']"
  by (simp add: statistics_def statistics_totals_def count_where_def example_conn_def
      conserved_def)

end
